theory Spec2Isabelle
  imports Complex_Main "HOL-Library.Word" "HOL-Library.Sublist"
begin

unbundle bit_operations_syntax

section \<open>Byte buffers, the read cursor and the DataView primitives\<close>

text \<open>
  The parser of \<^verbatim>\<open>parser.ts\<close> owns an \<^verbatim>\<open>ArrayBuffer\<close>, a \<^verbatim>\<open>DataView\<close> over it
  and a mutable \<^verbatim>\<open>cursor\<close>.  The buffer is a list of bytes, the cursor a natural number
  that every operation takes and hands back.  A \<^verbatim>\<open>DataView\<close> read outside the buffer
  raises \<^verbatim>\<open>RangeError\<close>; the cursor is left where it was, since the read happens before
  the increment.  A JavaScript \<^verbatim>\<open>number\<close> that holds an integer is an \<open>int\<close> (a \<open>nat\<close>
  for the cursor and for lengths); one that can hold a fraction is a \<open>number\<close>, defined below.
\<close>

type_synonym byte = "8 word"
type_synonym buffer = "byte list"

datatype 'a outcome =
    Done 'a nat     \<comment> \<open>normal completion: the value and the cursor afterwards\<close>
  | Thrown nat      \<comment> \<open>a \<^verbatim>\<open>RangeError\<close> was raised; the cursor at that moment\<close>
  | Diverges        \<comment> \<open>the loop never ends\<close>

definition andThen :: "'a outcome \<Rightarrow> ('a \<Rightarrow> nat \<Rightarrow> 'b outcome) \<Rightarrow> 'b outcome" where
  "andThen m f = (case m of Done a c \<Rightarrow> f a c | Thrown c \<Rightarrow> Thrown c | Diverges \<Rightarrow> Diverges)"

fun le_int :: "byte list \<Rightarrow> int" where
  "le_int [] = 0"
| "le_int (b # bs) = uint b + 256 * le_int bs"

definition view_bytes :: "buffer \<Rightarrow> nat \<Rightarrow> nat \<Rightarrow> int" where
  "view_bytes buf c n = le_int (take n (drop c buf))"

definition getUint8 :: "buffer \<Rightarrow> nat \<Rightarrow> int outcome" where
  "getUint8 buf c = (if c + 1 \<le> length buf then Done (view_bytes buf c 1) (c + 1) else Thrown c)"

definition getUint16 :: "buffer \<Rightarrow> nat \<Rightarrow> int outcome" where
  "getUint16 buf c = (if c + 2 \<le> length buf then Done (view_bytes buf c 2) (c + 2) else Thrown c)"

definition getUint32 :: "buffer \<Rightarrow> nat \<Rightarrow> int outcome" where
  "getUint32 buf c = (if c + 4 \<le> length buf then Done (view_bytes buf c 4) (c + 4) else Thrown c)"

definition signed32 :: "int \<Rightarrow> int" where
  "signed32 u = (if u < 2 ^ 31 then u else u - 2 ^ 32)"

definition getInt32 :: "buffer \<Rightarrow> nat \<Rightarrow> int outcome" where
  "getInt32 buf c =
     (if c + 4 \<le> length buf then Done (signed32 (view_bytes buf c 4)) (c + 4) else Thrown c)"

subsection \<open>JavaScript numbers\<close>

text \<open>
  A JavaScript \<^verbatim>\<open>number\<close> that can hold a fraction is a finite value, one of the two
  infinities, or \<^verbatim>\<open>NaN\<close>.  The finite values are reals: the rounding and the overflow of
  finite arithmetic are not modelled, and \<^verbatim>\<open>-0\<close> is \<^verbatim>\<open>0\<close>.
\<close>

datatype number = Num real | PosInfinity | NegInfinity | NaN

text \<open>The operators \<^verbatim>\<open>*\<close>, \<^verbatim>\<open>-\<close>, \<^verbatim>\<open><\<close> and \<^verbatim>\<open><=\<close> of IEEE 754.\<close>

fun num_times :: "number \<Rightarrow> number \<Rightarrow> number" where
  "num_times NaN w = NaN"
| "num_times v NaN = NaN"
| "num_times (Num a) (Num b) = Num (a * b)"
| "num_times (Num a) PosInfinity = (if a = 0 then NaN else if 0 < a then PosInfinity else NegInfinity)"
| "num_times (Num a) NegInfinity = (if a = 0 then NaN else if 0 < a then NegInfinity else PosInfinity)"
| "num_times PosInfinity (Num b) = (if b = 0 then NaN else if 0 < b then PosInfinity else NegInfinity)"
| "num_times NegInfinity (Num b) = (if b = 0 then NaN else if 0 < b then NegInfinity else PosInfinity)"
| "num_times PosInfinity PosInfinity = PosInfinity"
| "num_times PosInfinity NegInfinity = NegInfinity"
| "num_times NegInfinity PosInfinity = NegInfinity"
| "num_times NegInfinity NegInfinity = PosInfinity"

fun num_minus :: "number \<Rightarrow> number \<Rightarrow> number" where
  "num_minus NaN w = NaN"
| "num_minus v NaN = NaN"
| "num_minus (Num a) (Num b) = Num (a - b)"
| "num_minus (Num a) PosInfinity = NegInfinity"
| "num_minus (Num a) NegInfinity = PosInfinity"
| "num_minus PosInfinity (Num b) = PosInfinity"
| "num_minus NegInfinity (Num b) = NegInfinity"
| "num_minus PosInfinity PosInfinity = NaN"
| "num_minus PosInfinity NegInfinity = PosInfinity"
| "num_minus NegInfinity PosInfinity = NegInfinity"
| "num_minus NegInfinity NegInfinity = NaN"

fun num_less :: "number \<Rightarrow> number \<Rightarrow> bool" where
  "num_less NaN w = False"
| "num_less v NaN = False"
| "num_less (Num a) (Num b) = (a < b)"
| "num_less v NegInfinity = False"
| "num_less NegInfinity w = True"
| "num_less PosInfinity w = False"
| "num_less (Num a) PosInfinity = True"

definition num_le :: "number \<Rightarrow> number \<Rightarrow> bool" where
  "num_le v w = (v \<noteq> NaN \<and> w \<noteq> NaN \<and> (v = w \<or> num_less v w))"

text \<open>
  \<^verbatim>\<open>Math.min\<close> and \<^verbatim>\<open>Math.max\<close> on any number of arguments: \<^verbatim>\<open>NaN\<close> as soon as one
  argument is \<^verbatim>\<open>NaN\<close>; the search for the lowest starts at \<^verbatim>\<open>+Infinity\<close>, that for the
  highest at \<^verbatim>\<open>-Infinity\<close>.
\<close>

definition lower :: "number \<Rightarrow> number \<Rightarrow> number" where
  "lower v lowest = (if v = NaN \<or> lowest = NaN then NaN else if num_less v lowest then v else lowest)"

definition higher :: "number \<Rightarrow> number \<Rightarrow> number" where
  "higher v highest = (if v = NaN \<or> highest = NaN then NaN else if num_less highest v then v else highest)"

definition Math_min :: "number list \<Rightarrow> number" where
  "Math_min vs = fold lower vs PosInfinity"

definition Math_max :: "number list \<Rightarrow> number" where
  "Math_max vs = fold higher vs NegInfinity"

text \<open>
  The value of an IEEE 754 bit pattern with \<open>ebits\<close> exponent bits and \<open>mbits\<close>
  fraction bits.  With all exponent bits set the pattern is an infinity when the fraction
  is zero and \<^verbatim>\<open>NaN\<close> otherwise.
\<close>

definition ieee_value :: "nat \<Rightarrow> nat \<Rightarrow> int \<Rightarrow> number" where
  "ieee_value ebits mbits u =
     (let m = u mod 2 ^ mbits;
          e = nat ((u div 2 ^ mbits) mod 2 ^ ebits);
          negative = (u div 2 ^ (mbits + ebits) mod 2 = 1);
          s = (if negative then - 1 else 1);
          bias = 2 ^ (ebits - 1) - 1 + mbits
      in if e = 2 ^ ebits - 1 then
           (if m \<noteq> 0 then NaN else if negative then NegInfinity else PosInfinity)
         else if e = 0 then Num (s * real_of_int m / 2 ^ (bias - 1))
         else if bias \<le> e then Num (s * real_of_int (2 ^ mbits + m) * 2 ^ (e - bias))
         else Num (s * real_of_int (2 ^ mbits + m) / 2 ^ (bias - e)))"

definition getFloat32 :: "buffer \<Rightarrow> nat \<Rightarrow> number outcome" where
  "getFloat32 buf c =
     (if c + 4 \<le> length buf then Done (ieee_value 8 23 (view_bytes buf c 4)) (c + 4)
      else Thrown c)"

definition getFloat64 :: "buffer \<Rightarrow> nat \<Rightarrow> number outcome" where
  "getFloat64 buf c =
     (if c + 8 \<le> length buf then Done (ieee_value 11 52 (view_bytes buf c 8)) (c + 8)
      else Thrown c)"

subsection \<open>Numbers in template strings\<close>

definition digit_char :: "int \<Rightarrow> char" where
  "digit_char d = char_of (48 + d)"

function show_digits :: "int \<Rightarrow> string" where
  "show_digits n =
     (if n < 10 then [digit_char n] else show_digits (n div 10) @ [digit_char (n mod 10)])"
  by pat_completeness auto
termination
  by (relation "measure nat") auto

declare show_digits.simps [simp del]

definition show_int :: "int \<Rightarrow> string" where
  "show_int i = (if i < 0 then CHR ''-'' # show_digits (- i) else show_digits i)"

section \<open>Header validation (\<^verbatim>\<open>validateHeader\<close>)\<close>

text \<open>
  A JavaScript string is a list of UTF-16 code units.  \<^verbatim>\<open>TextDecoder("utf-8").decode\<close>
  is the decoder of the Encoding Standard: malformed input gives U+FFFD, the offending
  byte is read again, and a leading byte order mark is dropped from the result.
\<close>

type_synonym jsstring = "int list"

definition js_string :: "string \<Rightarrow> jsstring" where
  "js_string s = map of_char s"

fun utf8_decode :: "int \<Rightarrow> nat \<Rightarrow> int \<Rightarrow> int \<Rightarrow> byte list \<Rightarrow> int list" where
  "utf8_decode cp 0 lo hi [] = []"
| "utf8_decode cp (Suc n) lo hi [] = [0xFFFD]"
| "utf8_decode cp 0 lo hi (b # bs) =
     (let v = uint b in
      if v \<le> 0x7F then v # utf8_decode 0 0 0x80 0xBF bs
      else if 0xC2 \<le> v \<and> v \<le> 0xDF then utf8_decode (v mod 32) 1 0x80 0xBF bs
      else if 0xE0 \<le> v \<and> v \<le> 0xEF then
        utf8_decode (v mod 16) 2 (if v = 0xE0 then 0xA0 else 0x80) (if v = 0xED then 0x9F else 0xBF) bs
      else if 0xF0 \<le> v \<and> v \<le> 0xF4 then
        utf8_decode (v mod 8) 3 (if v = 0xF0 then 0x90 else 0x80) (if v = 0xF4 then 0x8F else 0xBF) bs
      else 0xFFFD # utf8_decode 0 0 0x80 0xBF bs)"
| "utf8_decode cp (Suc n) lo hi (b # bs) =
     (let v = uint b in
      if v < lo \<or> hi < v then 0xFFFD # utf8_decode 0 0 0x80 0xBF (b # bs)
      else if n = 0 then (cp * 64 + v mod 64) # utf8_decode 0 0 0x80 0xBF bs
      else utf8_decode (cp * 64 + v mod 64) n 0x80 0xBF bs)"

definition utf16_units :: "int \<Rightarrow> int list" where
  "utf16_units cp =
     (if cp < 0x10000 then [cp]
      else [0xD800 + (cp - 0x10000) div 0x400, 0xDC00 + (cp - 0x10000) mod 0x400])"

definition decoder_decode :: "byte list \<Rightarrow> jsstring" where
  "decoder_decode bs =
     (let cps = utf8_decode 0 0 0x80 0xBF bs
      in concat (map utf16_units (case cps of [] \<Rightarrow> [] | c # cs \<Rightarrow> if c = 0xFEFF then cs else cps)))"

definition startsWith :: "jsstring \<Rightarrow> string \<Rightarrow> bool" where
  "startsWith text s = prefix (js_string s) text"

definition HEADER_V3 :: string where "HEADER_V3 = ''reMarkable .lines file, version=3''"
definition HEADER_V5 :: string where "HEADER_V5 = ''reMarkable .lines file, version=5''"
definition HEADER_V6 :: string where "HEADER_V6 = ''reMarkable .lines file, version=6''"

datatype RMVersion = V3 | V5 | V6 | UNKNOWN

definition version_number :: "RMVersion \<Rightarrow> int" where
  "version_number v = (case v of V3 \<Rightarrow> 3 | V5 \<Rightarrow> 5 | V6 \<Rightarrow> 6 | UNKNOWN \<Rightarrow> - 1)"

definition HEADER_SIZES :: "RMVersion \<Rightarrow> nat option" where
  "HEADER_SIZES v = (case v of V3 \<Rightarrow> Some 33 | V5 \<Rightarrow> Some 43 | V6 \<Rightarrow> Some 43 | UNKNOWN \<Rightarrow> None)"

text \<open>
  \<^verbatim>\<open>headerText.match(/version=(\d+)/)\<close>: the leftmost place where the literal is followed
  by a digit, and the longest run of digits there.  \<^verbatim>\<open>parseInt(match[1], 10)\<close> is the
  number the run denotes.
\<close>

definition is_digit :: "int \<Rightarrow> bool" where
  "is_digit u = (48 \<le> u \<and> u \<le> 57)"

fun match_version :: "jsstring \<Rightarrow> jsstring option" where
  "match_version [] = None"
| "match_version (u # us) =
     (let ds = takeWhile is_digit (drop 8 (u # us))
      in if prefix (js_string ''version='') (u # us) \<and> ds \<noteq> [] then Some ds
         else match_version us)"

definition parseInt :: "jsstring \<Rightarrow> int" where
  "parseInt ds = fold (\<lambda>d n. 10 * n + (d - 48)) ds 0"

record HeaderValidation =
  valid :: bool
  version :: RMVersion
  error :: "string option"

definition header_text :: "buffer \<Rightarrow> jsstring" where
  "header_text buf = decoder_decode (take (min 43 (length buf)) buf)"

definition invalid_format :: HeaderValidation where
  "invalid_format =
     \<lparr>valid = False, version = UNKNOWN,
      error = Some ''Invalid file format: missing reMarkable header magic string''\<rparr>"

definition validateHeader :: "buffer \<Rightarrow> HeaderValidation" where
  "validateHeader buf =
     (if length buf < 33 then
        \<lparr>valid = False, version = UNKNOWN,
         error = Some (''File too small: '' @ show_int (int (length buf)) @ '' bytes, minimum 33 required'')\<rparr>
      else
        let headerText = header_text buf in
        if startsWith headerText HEADER_V6 then \<lparr>valid = True, version = V6, error = None\<rparr>
        else if startsWith headerText HEADER_V5 then \<lparr>valid = True, version = V5, error = None\<rparr>
        else if startsWith headerText HEADER_V3 then \<lparr>valid = True, version = V3, error = None\<rparr>
        else if startsWith headerText ''reMarkable .lines file, version='' then
          (case match_version headerText of
             Some ds \<Rightarrow>
               \<lparr>valid = False, version = UNKNOWN,
                error = Some (''Unsupported version: '' @ show_int (parseInt ds)
                              @ ''. Supported versions: 3, 5, 6'')\<rparr>
           | None \<Rightarrow> invalid_format)
        else invalid_format)"

section \<open>The stroke model (\<^verbatim>\<open>types.ts\<close>)\<close>

text \<open>
  Pen and colour are numeric enums read straight from the file, so any integer can
  occur.  The field \<^verbatim>\<open>width\<close> exists in both \<^verbatim>\<open>Point\<close> and \<^verbatim>\<open>Stroke\<close>; the
  selectors are written with their record name where they clash.
\<close>

record Point =
  x :: number
  y :: number
  pressure :: number
  width :: number
  speed :: number
  direction :: number

record Stroke =
  pen :: int
  color :: int
  width :: number
  points :: "Point list"
  layerIndex :: nat

record ParsedDocument =
  version :: RMVersion
  layers :: "Stroke list list"

text \<open>
  \<^verbatim>\<open>ParseError\<close> without its optional \<^verbatim>\<open>details\<close>, which only the \<^verbatim>\<open>catch\<close> of
  \<^verbatim>\<open>parse\<close> fills, with the stack trace.
\<close>

record ParseError =
  message :: string
  offset :: nat

datatype ParseResult = Success ParsedDocument | Failure ParseError

type_synonym StrokeResult = "string + Stroke"
type_synonym LayerResult = "string + Stroke list"

section \<open>Revisions 3 and 5 (\<^verbatim>\<open>parseV5\<close>, \<^verbatim>\<open>parseLayer\<close>, \<^verbatim>\<open>parseStroke\<close>)\<close>

fun parsePoints :: "buffer \<Rightarrow> nat \<Rightarrow> nat \<Rightarrow> Point list \<Rightarrow> Point list outcome" where
  "parsePoints buf 0 c pts = Done pts c"
| "parsePoints buf (Suc n) c pts =
     andThen (getFloat32 buf c) (\<lambda>px c.
     andThen (getFloat32 buf c) (\<lambda>py c.
     andThen (getFloat32 buf c) (\<lambda>pspeed c.
     andThen (getFloat32 buf c) (\<lambda>pdirection c.
     andThen (getFloat32 buf c) (\<lambda>pwidth c.
     andThen (getFloat32 buf c) (\<lambda>ppressure c.
       parsePoints buf n c
         (pts @ [\<lparr>x = px, y = py, pressure = ppressure, Point.width = pwidth,
                   speed = pspeed, direction = pdirection\<rparr>])))))))"

definition parseStroke :: "RMVersion \<Rightarrow> buffer \<Rightarrow> nat \<Rightarrow> nat \<Rightarrow> StrokeResult outcome" where
  "parseStroke ver buf layer c =
     (let headerSize = (if ver = V3 then 20 else 24) in
      if c + headerSize > length buf then Done (Inl ''Cannot read stroke header'') c
      else
        andThen (getInt32 buf c) (\<lambda>pen c.
        andThen (getInt32 buf c) (\<lambda>color c.
        andThen (getInt32 buf c) (\<lambda>_ c.
        andThen (getFloat32 buf c) (\<lambda>baseWidth c.
        andThen (if ver \<noteq> V3 then getInt32 buf c else Done 0 c) (\<lambda>_ c.
        andThen (getInt32 buf c) (\<lambda>numPoints c.
          if numPoints < 0 \<or> numPoints > 100000 then
            Done (Inl (''Invalid point count: '' @ show_int numPoints)) c
          else if int c + numPoints * 24 > int (length buf) then
            Done (Inl (''Not enough bytes for '' @ show_int numPoints @ '' points'')) c
          else
            andThen (parsePoints buf (nat numPoints) c []) (\<lambda>pts c.
              Done (Inr \<lparr>pen = pen, color = color, Stroke.width = baseWidth, points = pts,
                         layerIndex = layer\<rparr>) c))))))))"

function parseStrokes ::
  "RMVersion \<Rightarrow> buffer \<Rightarrow> nat \<Rightarrow> nat \<Rightarrow> nat \<Rightarrow> nat \<Rightarrow> Stroke list \<Rightarrow> LayerResult outcome" where
  "parseStrokes ver buf layer numStrokes i c strokes =
     (if i < numStrokes then
        (case parseStroke ver buf layer c of
           Done (Inl e) c' \<Rightarrow> Done (Inl (''Stroke '' @ show_int (int i) @ '': '' @ e)) c'
         | Done (Inr stroke) c' \<Rightarrow> parseStrokes ver buf layer numStrokes (i + 1) c' (strokes @ [stroke])
         | Thrown c' \<Rightarrow> Thrown c'
         | Diverges \<Rightarrow> Diverges)
      else Done (Inr strokes) c)"
  by pat_completeness auto
termination
  by (relation "measure (\<lambda>(ver, buf, layer, numStrokes, i, c, strokes). numStrokes - i)") auto

declare parseStrokes.simps [simp del]

definition parseLayer :: "RMVersion \<Rightarrow> buffer \<Rightarrow> nat \<Rightarrow> nat \<Rightarrow> LayerResult outcome" where
  "parseLayer ver buf layer c =
     (if c + 4 > length buf then Done (Inl ''Cannot read stroke count'') c
      else
        andThen (getInt32 buf c) (\<lambda>numStrokes c.
          if numStrokes < 0 \<or> numStrokes > 100000 then
            Done (Inl (''Invalid stroke count: '' @ show_int numStrokes)) c
          else parseStrokes ver buf layer (nat numStrokes) 0 c []))"

function parseLayers ::
  "RMVersion \<Rightarrow> buffer \<Rightarrow> nat \<Rightarrow> nat \<Rightarrow> nat \<Rightarrow> Stroke list list \<Rightarrow> ParseResult outcome" where
  "parseLayers ver buf numLayers layer c lrs =
     (if layer < numLayers then
        (case parseLayer ver buf layer c of
           Done (Inl e) c' \<Rightarrow>
             Done (Failure \<lparr>message = ''Failed to parse layer '' @ show_int (int layer) @ '': '' @ e,
                             offset = c'\<rparr>) c'
         | Done (Inr strokes) c' \<Rightarrow> parseLayers ver buf numLayers (layer + 1) c' (lrs @ [strokes])
         | Thrown c' \<Rightarrow> Thrown c'
         | Diverges \<Rightarrow> Diverges)
      else Done (Success \<lparr>version = ver, layers = lrs\<rparr>) c)"
  by pat_completeness auto
termination
  by (relation "measure (\<lambda>(ver, buf, numLayers, layer, c, lrs). numLayers - layer)") auto

declare parseLayers.simps [simp del]

definition parseV5 :: "RMVersion \<Rightarrow> buffer \<Rightarrow> ParseResult outcome" where
  "parseV5 ver buf =
     (let headerSize = (case HEADER_SIZES ver of None \<Rightarrow> 43 | Some h \<Rightarrow> if h = 0 then 43 else h);
          c = headerSize
      in if c + 4 > length buf then
           Done (Failure \<lparr>message = ''Unexpected end of file: cannot read layer count'',
                           offset = c\<rparr>) c
         else
           andThen (getInt32 buf c) (\<lambda>numLayers c.
             if numLayers < 0 \<or> numLayers > 100 then
               Done (Failure \<lparr>message = ''Invalid layer count: '' @ show_int numLayers
                                          @ ''. Expected 0-100.'',
                               offset = c - 4\<rparr>) c
             else parseLayers ver buf (nat numLayers) 0 c []))"

section \<open>Revision 6 (\<^verbatim>\<open>parseV6\<close>, \<^verbatim>\<open>readVaruint\<close>, \<^verbatim>\<open>parseV6Stroke\<close>)\<close>

definition V6_HEADER_SIZE :: nat where "V6_HEADER_SIZE = 43"
definition V6_POINT_SIZE :: nat where "V6_POINT_SIZE = 14"

definition TAG_ID :: int where "TAG_ID = 0xF"
definition TAG_Length4 :: int where "TAG_Length4 = 0xC"
definition TAG_Byte8 :: int where "TAG_Byte8 = 0x8"
definition TAG_Byte4 :: int where "TAG_Byte4 = 0x4"
definition TAG_Byte1 :: int where "TAG_Byte1 = 0x1"

definition LINE_DEF :: int where "LINE_DEF = 0x5020200"

definition RangeError_message :: string where
  "RangeError_message = ''Offset is outside the bounds of the DataView''"

text \<open>
  \<^verbatim>\<open>readVaruint\<close>.  The accumulator goes through \<^verbatim>\<open>|=\<close> and \<^verbatim>\<open><<\<close>, which work on
  32-bit integers and take the shift count modulo 32; the result is read as a signed
  32-bit value.  The loop reads no byte at or beyond the end of the buffer.
\<close>

function readVaruint_loop :: "buffer \<Rightarrow> 32 word \<Rightarrow> nat \<Rightarrow> nat \<Rightarrow> 32 word \<times> nat" where
  "readVaruint_loop buf result shift c =
     (if c < length buf then
        (let byte = buf ! c;
             result' = result OR push_bit (shift mod 32) (ucast (byte AND 0x7F))
         in if byte AND 0x80 = 0 then (result', c + 1)
            else readVaruint_loop buf result' (shift + 7) (c + 1))
      else (result, c))"
  by pat_completeness auto
termination
  by (relation "measure (\<lambda>(buf, result, shift, c). length buf - c)") auto

declare readVaruint_loop.simps [simp del]

definition readVaruint :: "buffer \<Rightarrow> nat \<Rightarrow> int \<times> nat" where
  "readVaruint buf c = (case readVaruint_loop buf 0 0 c of (r, c') \<Rightarrow> (sint r, c'))"

definition skipCrdtId :: "buffer \<Rightarrow> nat \<Rightarrow> nat" where
  "skipCrdtId buf c = snd (readVaruint buf (snd (readVaruint buf c)))"

text \<open>The local variables of \<^verbatim>\<open>parseV6Stroke\<close>.\<close>

record StrokeLocals =
  l_pen :: int
  l_color :: int
  l_thickness :: number
  l_points :: "Point list"

text \<open>
  The loop over the point records: at most \<open>n\<close> records, and none that would end
  beyond \<open>blockEnd\<close>.
\<close>

fun parseV6Points :: "buffer \<Rightarrow> nat \<Rightarrow> nat \<Rightarrow> nat \<Rightarrow> Point list \<Rightarrow> Point list outcome" where
  "parseV6Points buf blockEnd 0 c pts = Done pts c"
| "parseV6Points buf blockEnd (Suc n) c pts =
     (if c + V6_POINT_SIZE \<le> blockEnd then
        andThen (getFloat32 buf c) (\<lambda>px c.
        andThen (getFloat32 buf c) (\<lambda>py c.
        andThen (getUint16 buf c) (\<lambda>speed c.
        andThen (getUint16 buf c) (\<lambda>width c.
        andThen (getUint8 buf c) (\<lambda>direction c.
        andThen (getUint8 buf c) (\<lambda>pressure c.
          parseV6Points buf blockEnd n c
            (pts @ [\<lparr>x = px, y = py,
                      pressure = Num (real_of_int pressure / 255),
                      Point.width = Num (real_of_int width / 65535),
                      speed = Num (real_of_int speed / 65535),
                      direction = Num ((real_of_int direction / 255) * 360)\<rparr>])))))))
      else Done pts c)"

text \<open>The body of the \<^verbatim>\<open>switch (index)\<close>, entered with the cursor behind the tag.\<close>

definition parseV6Field ::
  "buffer \<Rightarrow> nat \<Rightarrow> int \<Rightarrow> int \<Rightarrow> StrokeLocals \<Rightarrow> nat \<Rightarrow> StrokeLocals outcome" where
  "parseV6Field buf blockEnd index wtype L c =
     (if index = 1 then
        (if wtype = TAG_Byte4 then andThen (getUint32 buf c) (\<lambda>v c. Done (L\<lparr>l_pen := v\<rparr>) c)
         else if wtype = TAG_ID then Done L (skipCrdtId buf c)
         else Done L c)
      else if index = 2 then
        (if wtype = TAG_Byte4 then andThen (getUint32 buf c) (\<lambda>v c. Done (L\<lparr>l_color := v\<rparr>) c)
         else if wtype = TAG_ID then Done L (skipCrdtId buf c)
         else Done L c)
      else if index = 3 then
        (if wtype = TAG_Byte8 then
           andThen (getFloat64 buf c) (\<lambda>v c. Done (L\<lparr>l_thickness := v\<rparr>) c)
         else Done L c)
      else if index = 4 then
        (if wtype = TAG_Byte4 then andThen (getFloat32 buf c) (\<lambda>_ c. Done L c)
         else Done L c)
      else if index = 5 then
        (if wtype = TAG_Length4 then
           andThen (getUint32 buf c) (\<lambda>pointsLen c.
           andThen (parseV6Points buf blockEnd (nat (pointsLen div int V6_POINT_SIZE)) c (l_points L))
             (\<lambda>pts c. Done (L\<lparr>l_points := pts\<rparr>) c))
         else Done L c)
      else if index = 6 \<or> index = 7 then
        (if wtype = TAG_ID then Done L (skipCrdtId buf c) else Done L c)
      else
        (if wtype = TAG_Byte1 then Done L (c + 1)
         else if wtype = TAG_Byte4 then Done L (c + 4)
         else if wtype = TAG_Byte8 then Done L (c + 8)
         else if wtype = TAG_Length4 then
           andThen (getUint32 buf c) (\<lambda>len c. Done L (c + nat len))
         else if wtype = TAG_ID then Done L (skipCrdtId buf c)
         else Done L c))"

text \<open>
  One turn of \<^verbatim>\<open>while (this.cursor < blockEnd)\<close>: the tag, \<^verbatim>\<open>tag >> 4\<close> and
  \<^verbatim>\<open>tag & 0xF\<close> (on a signed 32-bit value these are the floor quotient and the
  remainder by 16), then the switch.
\<close>

definition parseV6Stroke_step :: "buffer \<Rightarrow> nat \<Rightarrow> StrokeLocals \<Rightarrow> nat \<Rightarrow> StrokeLocals outcome" where
  "parseV6Stroke_step buf blockEnd L c =
     (case readVaruint buf c of (tag, c1) \<Rightarrow> parseV6Field buf blockEnd (tag div 16) (tag mod 16) L c1)"

text \<open>
  The stroke loop ends because every turn moves the cursor forward while it is inside
  the buffer.  The facts that say so come first.
\<close>

lemma readVaruint_loop_mono: "readVaruint_loop buf r s c = (r', c') \<Longrightarrow> c \<le> c' \<and> (c < length buf \<longrightarrow> c < c')"
proof (induction buf r s c rule: readVaruint_loop.induct)
  case (1 buf result shift c)
  show ?case
  proof (cases "c < length buf")
    case False
    with "1.prems" show ?thesis by (simp add: readVaruint_loop.simps [of buf result shift c])
  next
    case True
    show ?thesis
    proof (cases "buf ! c AND 0x80 = 0")
      case z: True
      with True "1.prems" show ?thesis by (simp add: readVaruint_loop.simps [of buf result shift c] Let_def)
    next
      case nz: False
      with True "1.prems" "1.IH" [OF True refl refl nz] show ?thesis
        by (simp add: readVaruint_loop.simps [of buf result shift c] Let_def)
    qed
  qed
qed

lemma readVaruint_mono: "readVaruint buf c = (t, c') \<Longrightarrow> c \<le> c' \<and> (c < length buf \<longrightarrow> c < c')"
  unfolding readVaruint_def using readVaruint_loop_mono [of buf 0 0 c]
  by (auto split: prod.splits)

lemma skipCrdtId_mono: "c \<le> skipCrdtId buf c"
  unfolding skipCrdtId_def
  by (metis readVaruint_mono order_trans prod.collapse)

lemma get_Done_iff:
  "getUint8 buf c = Done v c' \<longleftrightarrow> c + 1 \<le> length buf \<and> v = view_bytes buf c 1 \<and> c' = c + 1"
  "getUint16 buf c = Done v c' \<longleftrightarrow> c + 2 \<le> length buf \<and> v = view_bytes buf c 2 \<and> c' = c + 2"
  "getUint32 buf c = Done v c' \<longleftrightarrow> c + 4 \<le> length buf \<and> v = view_bytes buf c 4 \<and> c' = c + 4"
  "getInt32 buf c = Done v c' \<longleftrightarrow> c + 4 \<le> length buf \<and> v = signed32 (view_bytes buf c 4) \<and> c' = c + 4"
  "getFloat32 buf c = Done w c' \<longleftrightarrow> c + 4 \<le> length buf \<and> w = ieee_value 8 23 (view_bytes buf c 4) \<and> c' = c + 4"
  "getFloat64 buf c = Done w c' \<longleftrightarrow> c + 8 \<le> length buf \<and> w = ieee_value 11 52 (view_bytes buf c 8) \<and> c' = c + 8"
  by (auto simp: getUint8_def getUint16_def getUint32_def getInt32_def getFloat32_def getFloat64_def)

lemma andThen_Done_iff: "andThen m f = Done b c' \<longleftrightarrow> (\<exists>a c1. m = Done a c1 \<and> f a c1 = Done b c')"
  by (cases m) (auto simp: andThen_def)

lemma parseV6Points_mono: "parseV6Points buf blockEnd n c pts = Done pts' c' \<Longrightarrow> c \<le> c'"
proof (induction n arbitrary: c pts)
  case 0 then show ?case by simp
next
  case (Suc n)
  show ?case
  proof (cases "c + V6_POINT_SIZE \<le> blockEnd")
    case False with Suc.prems show ?thesis by simp
  next
    case True
    with Suc.prems show ?thesis
      by (auto simp: andThen_Done_iff get_Done_iff dest!: Suc.IH)
  qed
qed

lemma parseV6Field_mono: "parseV6Field buf blockEnd index wtype L c = Done L' c' \<Longrightarrow> c \<le> c'"
  unfolding parseV6Field_def
  by (auto split: if_splits simp: andThen_Done_iff get_Done_iff skipCrdtId_mono dest: parseV6Points_mono)

lemma parseV6Stroke_step_adv: "parseV6Stroke_step buf blockEnd L c = Done L' c' \<Longrightarrow> c < length buf \<Longrightarrow> c < c'"
  unfolding parseV6Stroke_step_def
  by (auto split: prod.splits dest!: readVaruint_mono parseV6Field_mono)

text \<open>
  \<^verbatim>\<open>while (this.cursor < blockEnd)\<close>.  With the cursor at or beyond the end of the
  buffer and still below \<open>blockEnd\<close>, \<^verbatim>\<open>readVaruint\<close> reads nothing and returns 0,
  index 0 with wire type 0 consumes nothing, and the state repeats for ever: that is
  \<open>Diverges\<close>.
\<close>

function parseV6Stroke_loop :: "buffer \<Rightarrow> nat \<Rightarrow> StrokeLocals \<Rightarrow> nat \<Rightarrow> StrokeLocals outcome" where
  "parseV6Stroke_loop buf blockEnd L c =
     (if c < blockEnd then
        (if length buf \<le> c then Diverges
         else
           (case parseV6Stroke_step buf blockEnd L c of
              Done L' c' \<Rightarrow> parseV6Stroke_loop buf blockEnd L' c'
            | Thrown c' \<Rightarrow> Thrown c'
            | Diverges \<Rightarrow> Diverges))
      else Done L c)"
  by pat_completeness auto
termination
proof (relation "measure (\<lambda>(buf, blockEnd, L, c). blockEnd - c)")
  show "wf (measure (\<lambda>(buf, blockEnd, L, c). blockEnd - c))" by simp
next
  fix buf :: buffer and blockEnd c c' :: nat and L L' :: StrokeLocals
  assume "c < blockEnd" "\<not> length buf \<le> c" and st: "parseV6Stroke_step buf blockEnd L c = Done L' c'"
  then have "c < c'" using parseV6Stroke_step_adv [OF st] by simp
  with \<open>c < blockEnd\<close>
  show "((buf, blockEnd, L', c'), (buf, blockEnd, L, c)) \<in> measure (\<lambda>(buf, blockEnd, L, c). blockEnd - c)"
    by simp
qed

declare parseV6Stroke_loop.simps [simp del]

text \<open>
  \<^verbatim>\<open>parseV6Stroke\<close>: pen \<^verbatim>\<open>BALLPOINT\<close> (0), colour \<^verbatim>\<open>BLACK\<close> (0) and thickness 1
  to start with; the \<^verbatim>\<open>catch\<close> turns a \<^verbatim>\<open>RangeError\<close> into a failed result.
\<close>

definition parseV6Stroke :: "buffer \<Rightarrow> nat \<Rightarrow> nat \<Rightarrow> StrokeResult outcome" where
  "parseV6Stroke buf blockEnd c =
     (case parseV6Stroke_loop buf blockEnd
             \<lparr>l_pen = 0, l_color = 0, l_thickness = Num 1, l_points = []\<rparr> c of
        Done L c' \<Rightarrow>
          Done (Inr \<lparr>pen = l_pen L, color = l_color L, Stroke.width = l_thickness L,
                     points = l_points L, layerIndex = 0\<rparr>) c'
      | Thrown c' \<Rightarrow> Done (Inl (''V6 stroke parse error: '' @ RangeError_message)) c'
      | Diverges \<Rightarrow> Diverges)"

text \<open>One turn of the block scan of \<^verbatim>\<open>parseV6\<close>, entered with \<open>c + 8 \<le> length buf\<close>.\<close>

definition parseV6_step :: "buffer \<Rightarrow> Stroke list \<Rightarrow> nat \<Rightarrow> Stroke list outcome" where
  "parseV6_step buf strokes c =
     (let blockStart = c in
      andThen (getUint32 buf c) (\<lambda>len c.
      andThen (getUint32 buf c) (\<lambda>flag c.
        if len = 0 \<or> len > int (length buf) - int c \<or> len > 10000000 then
          Done strokes (blockStart + 1)
        else if flag = LINE_DEF then
          (let blockEnd = c + nat len in
           case parseV6Stroke buf blockEnd c of
             Done strokeResult _ \<Rightarrow>
               Done (case strokeResult of
                       Inr stroke \<Rightarrow> if points stroke \<noteq> [] then strokes @ [stroke] else strokes
                     | Inl _ \<Rightarrow> strokes) blockEnd
           | Thrown c' \<Rightarrow> Thrown c'
           | Diverges \<Rightarrow> Diverges)
        else Done strokes (c + nat len))))"

lemma parseV6_step_adv:
  "parseV6_step buf strokes c = Done strokes' c' \<Longrightarrow> c < c'"
  unfolding parseV6_step_def
  by (auto simp: Let_def andThen_Done_iff get_Done_iff split: if_splits outcome.splits)

function parseV6_loop :: "buffer \<Rightarrow> Stroke list \<Rightarrow> nat \<Rightarrow> Stroke list outcome" where
  "parseV6_loop buf strokes c =
     (if c + 8 \<le> length buf then
        (case parseV6_step buf strokes c of
           Done strokes' c' \<Rightarrow> parseV6_loop buf strokes' c'
         | Thrown c' \<Rightarrow> Thrown c'
         | Diverges \<Rightarrow> Diverges)
      else Done strokes c)"
  by pat_completeness auto
termination
proof (relation "measure (\<lambda>(buf, strokes, c). length buf - c)")
  show "wf (measure (\<lambda>(buf, strokes, c). length buf - c))" by simp
next
  fix buf :: buffer and strokes strokes' :: "Stroke list" and c c' :: nat
  assume "c + 8 \<le> length buf" and st: "parseV6_step buf strokes c = Done strokes' c'"
  with parseV6_step_adv [OF st]
  show "((buf, strokes', c'), (buf, strokes, c)) \<in> measure (\<lambda>(buf, strokes, c). length buf - c)"
    by simp
qed

declare parseV6_loop.simps [simp del]

definition parseV6 :: "RMVersion \<Rightarrow> buffer \<Rightarrow> ParseResult outcome" where
  "parseV6 ver buf =
     (case parseV6_loop buf [] V6_HEADER_SIZE of
        Done strokes c \<Rightarrow> Done (Success \<lparr>version = ver, layers = [strokes]\<rparr>) c
      | Thrown c \<Rightarrow> Thrown c
      | Diverges \<Rightarrow> Diverges)"

section \<open>The entry point (\<^verbatim>\<open>parse\<close>)\<close>

text \<open>
  \<open>None\<close> stands for a call that never returns.  The \<^verbatim>\<open>catch\<close> of \<^verbatim>\<open>parse\<close> turns
  an escaped \<^verbatim>\<open>RangeError\<close> into a failure at the cursor's position.
\<close>

definition parse :: "buffer \<Rightarrow> ParseResult option" where
  "parse buf =
     (let headerResult = validateHeader buf in
      if \<not> valid headerResult then
        Some (Failure \<lparr>message = (case error headerResult of
                                     None \<Rightarrow> ''Invalid header''
                                   | Some e \<Rightarrow> if e = [] then ''Invalid header'' else e),
                       offset = 0\<rparr>)
      else
        let ver = HeaderValidation.version headerResult in
        (case (if ver = V6 then parseV6 ver buf
               else if ver = V5 \<or> ver = V3 then parseV5 ver buf
               else Done (Failure \<lparr>message = ''Cannot parse version '' @ show_int (version_number ver),
                                    offset = 0\<rparr>) 0) of
           Done r _ \<Rightarrow> Some r
         | Thrown c \<Rightarrow> Some (Failure \<lparr>message = ''Parse error: '' @ RangeError_message, offset = c\<rparr>)
         | Diverges \<Rightarrow> None))"

section \<open>Pen and colour tables (\<^verbatim>\<open>constants.ts\<close>)\<close>

text \<open>The values of the enums \<^verbatim>\<open>PenType\<close> and \<^verbatim>\<open>RMColor\<close>.\<close>

definition BALLPOINT :: int where "BALLPOINT = 0"
definition MARKER :: int where "MARKER = 1"
definition FINELINER :: int where "FINELINER = 2"
definition HIGHLIGHTER :: int where "HIGHLIGHTER = 3"
definition ERASER :: int where "ERASER = 4"
definition MECHANICAL_PENCIL :: int where "MECHANICAL_PENCIL = 5"
definition PAINTBRUSH :: int where "PAINTBRUSH = 6"
definition CALLIGRAPHY :: int where "CALLIGRAPHY = 7"
definition PENCIL :: int where "PENCIL = 8"
definition BALLPOINT_V2 :: int where "BALLPOINT_V2 = 12"
definition MARKER_V2 :: int where "MARKER_V2 = 13"
definition FINELINER_V2 :: int where "FINELINER_V2 = 14"
definition HIGHLIGHTER_V2 :: int where "HIGHLIGHTER_V2 = 15"
definition ERASER_V2 :: int where "ERASER_V2 = 16"
definition MECHANICAL_PENCIL_V2 :: int where "MECHANICAL_PENCIL_V2 = 17"
definition PAINTBRUSH_V2 :: int where "PAINTBRUSH_V2 = 18"

definition BLACK :: int where "BLACK = 0"
definition GRAY :: int where "GRAY = 1"
definition WHITE :: int where "WHITE = 2"
definition YELLOW :: int where "YELLOW = 3"
definition GREEN :: int where "GREEN = 4"
definition PINK :: int where "PINK = 5"
definition BLUE :: int where "BLUE = 6"
definition RED :: int where "RED = 7"
definition GRAY_OVERLAP :: int where "GRAY_OVERLAP = 8"

record PenCharacteristics =
  baseMultiplier :: real
  pressureSensitive :: bool
  opacity :: int
  roughness :: int
  strokeStyle :: string
  simulatePressure :: bool

text \<open>The object \<^verbatim>\<open>PEN_CHARACTERISTICS\<close>, its entries in the order of the source.\<close>

definition PEN_CHARACTERISTICS :: "(int \<times> PenCharacteristics) list" where
  "PEN_CHARACTERISTICS =
     [(BALLPOINT, \<lparr>baseMultiplier = 1.0, pressureSensitive = True, opacity = 100, roughness = 0,
         strokeStyle = ''solid'', simulatePressure = False\<rparr>),
      (BALLPOINT_V2, \<lparr>baseMultiplier = 1.0, pressureSensitive = True, opacity = 100, roughness = 0,
         strokeStyle = ''solid'', simulatePressure = False\<rparr>),
      (MARKER, \<lparr>baseMultiplier = 1.8, pressureSensitive = True, opacity = 100, roughness = 1,
         strokeStyle = ''solid'', simulatePressure = False\<rparr>),
      (MARKER_V2, \<lparr>baseMultiplier = 1.8, pressureSensitive = True, opacity = 100, roughness = 1,
         strokeStyle = ''solid'', simulatePressure = False\<rparr>),
      (FINELINER, \<lparr>baseMultiplier = 0.6, pressureSensitive = False, opacity = 100, roughness = 0,
         strokeStyle = ''solid'', simulatePressure = True\<rparr>),
      (FINELINER_V2, \<lparr>baseMultiplier = 0.6, pressureSensitive = False, opacity = 100, roughness = 0,
         strokeStyle = ''solid'', simulatePressure = True\<rparr>),
      (HIGHLIGHTER, \<lparr>baseMultiplier = 8.0, pressureSensitive = False, opacity = 40, roughness = 1,
         strokeStyle = ''solid'', simulatePressure = True\<rparr>),
      (HIGHLIGHTER_V2, \<lparr>baseMultiplier = 8.0, pressureSensitive = False, opacity = 40, roughness = 1,
         strokeStyle = ''solid'', simulatePressure = True\<rparr>),
      (ERASER, \<lparr>baseMultiplier = 2.0, pressureSensitive = True, opacity = 100, roughness = 0,
         strokeStyle = ''solid'', simulatePressure = False\<rparr>),
      (ERASER_V2, \<lparr>baseMultiplier = 2.0, pressureSensitive = True, opacity = 100, roughness = 0,
         strokeStyle = ''solid'', simulatePressure = False\<rparr>),
      (MECHANICAL_PENCIL, \<lparr>baseMultiplier = 0.5, pressureSensitive = True, opacity = 90, roughness = 1,
         strokeStyle = ''solid'', simulatePressure = False\<rparr>),
      (MECHANICAL_PENCIL_V2, \<lparr>baseMultiplier = 0.5, pressureSensitive = True, opacity = 90, roughness = 1,
         strokeStyle = ''solid'', simulatePressure = False\<rparr>),
      (PAINTBRUSH, \<lparr>baseMultiplier = 2.5, pressureSensitive = True, opacity = 100, roughness = 2,
         strokeStyle = ''solid'', simulatePressure = False\<rparr>),
      (PAINTBRUSH_V2, \<lparr>baseMultiplier = 2.5, pressureSensitive = True, opacity = 100, roughness = 2,
         strokeStyle = ''solid'', simulatePressure = False\<rparr>),
      (CALLIGRAPHY, \<lparr>baseMultiplier = 1.5, pressureSensitive = True, opacity = 100, roughness = 0,
         strokeStyle = ''solid'', simulatePressure = False\<rparr>),
      (PENCIL, \<lparr>baseMultiplier = 1.0, pressureSensitive = True, opacity = 85, roughness = 2,
         strokeStyle = ''solid'', simulatePressure = False\<rparr>)]"

definition DEFAULT_PEN_CHARACTERISTICS :: PenCharacteristics where
  "DEFAULT_PEN_CHARACTERISTICS =
     \<lparr>baseMultiplier = 1.0, pressureSensitive = True, opacity = 100, roughness = 1,
      strokeStyle = ''solid'', simulatePressure = False\<rparr>"

definition getPenCharacteristics :: "int \<Rightarrow> PenCharacteristics" where
  "getPenCharacteristics p =
     (case map_of PEN_CHARACTERISTICS p of Some pc \<Rightarrow> pc | None \<Rightarrow> DEFAULT_PEN_CHARACTERISTICS)"

definition COLOR_MAP :: "(int \<times> string) list" where
  "COLOR_MAP =
     [(BLACK, ''#000000''),
      (GRAY, ''#808080''),
      (WHITE, ''#FFFFFF''),
      (YELLOW, ''#FFEB3B''),
      (GREEN, ''#4CAF50''),
      (PINK, ''#E91E63''),
      (BLUE, ''#2196F3''),
      (RED, ''#F44336''),
      (GRAY_OVERLAP, ''#A0A0A0'')]"

definition getHexColor :: "int \<Rightarrow> string" where
  "getHexColor col =
     (case map_of COLOR_MAP col of Some h \<Rightarrow> h | None \<Rightarrow> the (map_of COLOR_MAP BLACK))"

section \<open>Numeric utilities and the injected services (\<^verbatim>\<open>utils.ts\<close>)\<close>

definition normalizePressure :: "number \<Rightarrow> number" where
  "normalizePressure pr = Math_max [Num 0, Math_min [Num 1, pr]]"

definition calculateStrokeWidth :: "number \<Rightarrow> number \<Rightarrow> number \<Rightarrow> number" where
  "calculateStrokeWidth baseWidth multiplier scl =
     (let w = num_times (num_times baseWidth multiplier) scl in Math_max [Num 1, Math_min [Num 16, w]])"

text \<open>
  \<^verbatim>\<open>generateId\<close>, \<^verbatim>\<open>generateSeed\<close> and \<^verbatim>\<open>Date.now\<close> are the three sources of values
  from outside.  Each is a sequence: the \<open>k\<close>-th call returns the \<open>k\<close>-th value.  The
  record \<open>Calls\<close> counts the calls made so far.
\<close>

record Services =
  nextId :: "nat \<Rightarrow> string"
  nextSeed :: "nat \<Rightarrow> int"
  nextNow :: "nat \<Rightarrow> int"

record Calls =
  idCalls :: nat
  seedCalls :: nat
  nowCalls :: nat

definition generateId :: "Services \<Rightarrow> Calls \<Rightarrow> string \<times> Calls" where
  "generateId sv k = (nextId sv (idCalls k), k\<lparr>idCalls := idCalls k + 1\<rparr>)"

definition generateSeed :: "Services \<Rightarrow> Calls \<Rightarrow> int \<times> Calls" where
  "generateSeed sv k = (nextSeed sv (seedCalls k), k\<lparr>seedCalls := seedCalls k + 1\<rparr>)"

definition Date_now :: "Services \<Rightarrow> Calls \<Rightarrow> int \<times> Calls" where
  "Date_now sv k = (nextNow sv (nowCalls k), k\<lparr>nowCalls := nowCalls k + 1\<rparr>)"

section \<open>The output document (\<^verbatim>\<open>types.ts\<close>)\<close>

text \<open>
  The two element interfaces share their first 25 fields.  A field typed \<^verbatim>\<open>null\<close> is
  a \<open>unit\<close>, one typed \<^verbatim>\<open>T | null\<close> an option.  The field \<^verbatim>\<open>id\<close> of an element
  is \<open>id'\<close> here and that of a file \<open>file_id\<close>; \<^verbatim>\<open>type\<close> and \<^verbatim>\<open>version\<close> of the
  document are \<open>doc_type\<close> and \<open>doc_version\<close>.
\<close>

record ExcalidrawElementBase =
  type :: string
  version :: nat
  versionNonce :: int
  isDeleted :: bool
  id' :: string
  fillStyle :: string
  strokeWidth :: number
  strokeStyle :: string
  roughness :: int
  opacity :: int
  angle :: number
  x :: number
  y :: number
  strokeColor :: string
  backgroundColor :: string
  width :: number
  height :: number
  seed :: int
  groupIds :: "string list"
  frameId :: "string option"
  roundness :: unit
  boundElements :: unit
  updated :: int
  link :: unit
  locked :: bool

record ExcalidrawFreedrawElement = ExcalidrawElementBase +
  points :: "number list list"
  pressures :: "number list"
  simulatePressure :: bool
  lastCommittedPoint :: "number list option"

record ExcalidrawImageElement = ExcalidrawElementBase +
  status :: string
  fileId :: string
  scale :: "number \<times> number"

datatype ExcalidrawElement = Freedraw ExcalidrawFreedrawElement | Image ExcalidrawImageElement

record ExcalidrawFile =
  mimeType :: string
  file_id :: string
  dataURL :: string
  created :: int

record AppState =
  viewBackgroundColor :: string
  currentItemFontFamily :: nat

text \<open>The object \<^verbatim>\<open>files\<close> is the list of its entries, in the order of insertion.\<close>

record ExcalidrawDocument =
  doc_type :: string
  doc_version :: nat
  source :: string
  elements :: "ExcalidrawElement list"
  appState :: AppState
  files :: "(string \<times> ExcalidrawFile) list"

section \<open>The converter (\<^verbatim>\<open>converter.ts\<close>)\<close>

record ConversionOptions =
  preserveLayers :: bool
  includeEraser :: bool
  strokeWidthScale :: number

definition DEFAULT_OPTIONS :: ConversionOptions where
  "DEFAULT_OPTIONS = \<lparr>preserveLayers = True, includeEraser = False, strokeWidthScale = Num 0.5\<rparr>"

record BackgroundImage =
  dataUrl :: string
  bg_width :: number
  bg_height :: number

text \<open>
  The fields of the class \<^verbatim>\<open>ExcalidrawConverter\<close>.  \<^verbatim>\<open>layerGroupIds\<close> is a
  \<^verbatim>\<open>Map<number, string>\<close> that lives as long as the converter does.
\<close>

record ExcalidrawConverter =
  options :: ConversionOptions
  layerGroupIds :: "nat \<Rightarrow> string option"
  backgroundImage :: "BackgroundImage option"

definition setBackgroundImage :: "ExcalidrawConverter \<Rightarrow> string \<Rightarrow> number \<Rightarrow> number \<Rightarrow> ExcalidrawConverter" where
  "setBackgroundImage conv url w h =
     conv\<lparr>backgroundImage := Some \<lparr>dataUrl = url, bg_width = w, bg_height = h\<rparr>\<rparr>"

text \<open>
  The fields of an object literal are evaluated in the order they are written:
  \<^verbatim>\<open>versionNonce: Date.now()\<close>, \<^verbatim>\<open>id: generateId()\<close>, \<^verbatim>\<open>seed: generateSeed()\<close>,
  \<^verbatim>\<open>updated: Date.now()\<close>.
\<close>

definition createBackgroundImageElement ::
  "Services \<Rightarrow> string \<Rightarrow> number \<Rightarrow> number \<Rightarrow> Calls \<Rightarrow> ExcalidrawImageElement \<times> Calls" where
  "createBackgroundImageElement sv fid w h k =
     (case Date_now sv k of (nonce, k) \<Rightarrow>
      case generateId sv k of (eid, k) \<Rightarrow>
      case generateSeed sv k of (sd, k) \<Rightarrow>
      case Date_now sv k of (upd, k) \<Rightarrow>
        (\<lparr>type = ''image'', version = 1, versionNonce = nonce, isDeleted = False, id' = eid,
          fillStyle = ''solid'', strokeWidth = Num 1, strokeStyle = ''solid'', roughness = 0,
          opacity = 100, angle = Num 0, x = Num 0, y = Num 0, strokeColor = ''transparent'',
          backgroundColor = ''transparent'', width = w, height = h, seed = sd, groupIds = [],
          frameId = None, roundness = (), boundElements = (), updated = upd, link = (),
          locked = True, status = ''saved'', fileId = fid, scale = (Num 1, Num 1)\<rparr>, k))"

definition isEraserStroke :: "Stroke \<Rightarrow> bool" where
  "isEraserStroke stroke = (pen stroke = ERASER \<or> pen stroke = ERASER_V2)"

definition calculatePressures :: "Stroke \<Rightarrow> PenCharacteristics \<Rightarrow> number list" where
  "calculatePressures stroke penChar =
     (if \<not> pressureSensitive penChar then map (\<lambda>_. Num 0.5) (Stroke.points stroke)
      else map (\<lambda>pt. normalizePressure (pressure pt)) (Stroke.points stroke))"

text \<open>
  A call either returns or throws.  The only throw in the converter is the
  \<^verbatim>\<open>RangeError\<close> of a call with spread arguments, \<^verbatim>\<open>f(...vs)\<close>: every element of
  \<open>vs\<close> becomes an argument on the stack, and the engine refuses a call with more
  arguments than it has room for.  That bound belongs to the engine, not to the program;
  it is the parameter \<open>maxArgs\<close> of everything below.
\<close>

datatype 'a completion = Returns 'a | Throws

definition spread_call :: "nat \<Rightarrow> (number list \<Rightarrow> number) \<Rightarrow> number list \<Rightarrow> number completion" where
  "spread_call maxArgs f vs = (if maxArgs < length vs then Throws else Returns (f vs))"

definition convertStroke ::
  "nat \<Rightarrow> ExcalidrawConverter \<Rightarrow> Services \<Rightarrow> Stroke \<Rightarrow> nat \<Rightarrow> Calls
     \<Rightarrow> (ExcalidrawFreedrawElement option \<times> Calls) completion" where
  "convertStroke maxArgs conv sv stroke layer k =
     (if length (Stroke.points stroke) = 0 then Returns (None, k)
      else
        let penChar = getPenCharacteristics (pen stroke);
            strokeColor' = getHexColor (color stroke);
            strokeWidth' = calculateStrokeWidth (Stroke.width stroke) (Num (baseMultiplier penChar))
                             (strokeWidthScale (options conv));
            rawPoints = map (\<lambda>pt. [Point.x pt, Point.y pt]) (Stroke.points stroke);
            xs = map (\<lambda>pt. pt ! 0) rawPoints;
            ys = map (\<lambda>pt. pt ! 1) rawPoints
        in
          case spread_call maxArgs Math_min xs of Throws \<Rightarrow> Throws | Returns minX \<Rightarrow>
          case spread_call maxArgs Math_min ys of Throws \<Rightarrow> Throws | Returns minY \<Rightarrow>
          case spread_call maxArgs Math_max xs of Throws \<Rightarrow> Throws | Returns maxX \<Rightarrow>
          case spread_call maxArgs Math_max ys of Throws \<Rightarrow> Throws | Returns maxY \<Rightarrow>
          let relativePoints =
                map (\<lambda>pt. [num_minus (pt ! 0) minX, num_minus (pt ! 1) minY]) rawPoints;
              pressures' = calculatePressures stroke penChar;
              groupIds' =
                (if preserveLayers (options conv) then
                   (case layerGroupIds conv layer of
                      Some groupId \<Rightarrow> if groupId \<noteq> [] then [groupId] else []
                    | None \<Rightarrow> [])
                 else [])
          in
            case Date_now sv k of (nonce, k) \<Rightarrow>
            case generateId sv k of (eid, k) \<Rightarrow>
            case generateSeed sv k of (sd, k) \<Rightarrow>
            case Date_now sv k of (upd, k) \<Rightarrow>
              Returns
                (Some \<lparr>type = ''freedraw'', version = 1, versionNonce = nonce, isDeleted = False,
                       id' = eid, fillStyle = ''solid'', strokeWidth = strokeWidth',
                       strokeStyle = PenCharacteristics.strokeStyle penChar,
                       roughness = PenCharacteristics.roughness penChar,
                       opacity = PenCharacteristics.opacity penChar, angle = Num 0,
                       x = minX, y = minY,
                       strokeColor = strokeColor', backgroundColor = ''transparent'',
                       width = num_minus maxX minX, height = num_minus maxY minY, seed = sd,
                       groupIds = groupIds',
                       frameId = None, roundness = (), boundElements = (), updated = upd,
                       link = (), locked = False, points = relativePoints,
                       pressures = pressures',
                       simulatePressure = PenCharacteristics.simulatePressure penChar,
                       lastCommittedPoint = None\<rparr>, k))"

text \<open>
  \<^verbatim>\<open>layer.forEach(stroke => ...)\<close>, with the element list and the call counters.  A
  throw inside the callback ends the loop and leaves \<^verbatim>\<open>convert\<close>, which catches nothing.
\<close>

fun convertLayer ::
  "nat \<Rightarrow> ExcalidrawConverter \<Rightarrow> Services \<Rightarrow> nat \<Rightarrow> Stroke list \<Rightarrow> ExcalidrawElement list \<times> Calls
     \<Rightarrow> (ExcalidrawElement list \<times> Calls) completion" where
  "convertLayer maxArgs conv sv layer [] (els, k) = Returns (els, k)"
| "convertLayer maxArgs conv sv layer (stroke # rest) (els, k) =
     (if \<not> includeEraser (options conv) \<and> isEraserStroke stroke then
        convertLayer maxArgs conv sv layer rest (els, k)
      else
        (case convertStroke maxArgs conv sv stroke layer k of
           Throws \<Rightarrow> Throws
         | Returns (Some element, k') \<Rightarrow>
             convertLayer maxArgs conv sv layer rest (els @ [Freedraw element], k')
         | Returns (None, k') \<Rightarrow> convertLayer maxArgs conv sv layer rest (els, k')))"

text \<open>\<^verbatim>\<open>document.layers.forEach((layer, layerIndex) => ...)\<close>, from index \<open>layer\<close> on.\<close>

fun convertLayers ::
  "nat \<Rightarrow> ExcalidrawConverter \<Rightarrow> Services \<Rightarrow> nat \<Rightarrow> Stroke list list \<Rightarrow> ExcalidrawElement list \<times> Calls
     \<Rightarrow> (ExcalidrawElement list \<times> Calls) completion" where
  "convertLayers maxArgs conv sv layer [] acc = Returns acc"
| "convertLayers maxArgs conv sv layer (l # ls) acc =
     (case convertLayer maxArgs conv sv layer l acc of
        Throws \<Rightarrow> Throws
      | Returns acc' \<Rightarrow> convertLayers maxArgs conv sv (layer + 1) ls acc')"

text \<open>The loop that gives every layer index a fresh group id.\<close>

fun setLayerGroupIds ::
  "Services \<Rightarrow> nat \<Rightarrow> Stroke list list \<Rightarrow> (nat \<Rightarrow> string option) \<times> Calls
     \<Rightarrow> (nat \<Rightarrow> string option) \<times> Calls" where
  "setLayerGroupIds sv index [] (m, k) = (m, k)"
| "setLayerGroupIds sv index (l # ls) (m, k) =
     (case generateId sv k of (gid, k') \<Rightarrow> setLayerGroupIds sv (index + 1) ls (m(index \<mapsto> gid), k'))"

text \<open>
  \<^verbatim>\<open>convert\<close> returns the document, and with it the converter (whose map of group ids
  it has updated) and the call counters; or it throws.
\<close>

definition convert ::
  "nat \<Rightarrow> ExcalidrawConverter \<Rightarrow> Services \<Rightarrow> ParsedDocument \<Rightarrow> Calls
     \<Rightarrow> (ExcalidrawDocument \<times> ExcalidrawConverter \<times> Calls) completion" where
  "convert maxArgs conv sv document k =
     (case (case backgroundImage conv of
              Some bg \<Rightarrow>
                (case generateId sv k of (fid, k) \<Rightarrow>
                 case createBackgroundImageElement sv fid (bg_width bg) (bg_height bg) k of
                   (imageElement, k) \<Rightarrow>
                 case Date_now sv k of (t, k) \<Rightarrow>
                   ([Image imageElement],
                    [(fid, \<lparr>mimeType = ''image/png'', file_id = fid, dataURL = dataUrl bg,
                            created = t\<rparr>)], k))
            | None \<Rightarrow> ([], [], k)) of
        (els, fls, k) \<Rightarrow>
      case (if preserveLayers (options conv)
            then setLayerGroupIds sv 0 (layers document) (layerGroupIds conv, k)
            else (layerGroupIds conv, k)) of
        (m, k) \<Rightarrow>
      let conv' = conv\<lparr>layerGroupIds := m\<rparr> in
      case convertLayers maxArgs conv' sv 0 (layers document) (els, k) of
        Throws \<Rightarrow> Throws
      | Returns (els, k) \<Rightarrow>
          Returns
            (\<lparr>doc_type = ''excalidraw'', doc_version = 2, source = ''obsidian-remarkable-import'',
              elements = els,
              appState = \<lparr>viewBackgroundColor = ''#ffffff'', currentItemFontFamily = 1\<rparr>,
              files = fls\<rparr>, conv', k))"

section \<open>Comparing two conversions\<close>

text \<open>
  Two conversions are compared by their results: both throw, or both return and the
  documents agree up to the fields that hold the time of the conversion:
  \<^verbatim>\<open>versionNonce\<close> and \<^verbatim>\<open>updated\<close> of an element and \<^verbatim>\<open>created\<close> of a file.  Two runs
  have the same generators when the id and seed sequences agree and as many ids and seeds
  have been drawn before.
\<close>

definition erase_time_element :: "ExcalidrawElement \<Rightarrow> ExcalidrawElement" where
  "erase_time_element e =
     (case e of
        Freedraw f \<Rightarrow> Freedraw (f\<lparr>versionNonce := 0, updated := 0\<rparr>)
      | Image i \<Rightarrow> Image (i\<lparr>versionNonce := 0, updated := 0\<rparr>))"

definition erase_time :: "ExcalidrawDocument \<Rightarrow> ExcalidrawDocument" where
  "erase_time d =
     d\<lparr>elements := map erase_time_element (elements d),
       files := map (\<lambda>(fid, f). (fid, f\<lparr>created := 0\<rparr>)) (files d)\<rparr>"

definition erase_time_result ::
  "(ExcalidrawDocument \<times> ExcalidrawConverter \<times> Calls) completion \<Rightarrow> ExcalidrawDocument completion" where
  "erase_time_result r = (case r of Returns (d, c, k) \<Rightarrow> Returns (erase_time d) | Throws \<Rightarrow> Throws)"

definition same_generators :: "Services \<Rightarrow> Calls \<Rightarrow> Services \<Rightarrow> Calls \<Rightarrow> bool" where
  "same_generators sv1 k1 sv2 k2 =
     (nextId sv1 = nextId sv2 \<and> nextSeed sv1 = nextSeed sv2 \<and>
      idCalls k1 = idCalls k2 \<and> seedCalls k1 = seedCalls k2)"


text \<open>What a call has returned, if it has returned.\<close>

definition returned_element ::
  "(ExcalidrawFreedrawElement option \<times> Calls) completion \<Rightarrow> ExcalidrawFreedrawElement option" where
  "returned_element r = (case r of Returns (e, k) \<Rightarrow> e | Throws \<Rightarrow> None)"


section \<open>The wire format of a revision-6 field, as the specification words it\<close>

text \<open>
  A varuint runs up to and including the first byte whose high bit is clear, or to the
  end of the buffer.  Its value is little-endian base 128: seven data bits per byte, the
  lowest first, of any size.  The payload of a field is 1, 4 or 8 bytes for the scalar wire
  types, a 4-byte length followed by that many bytes for the length-prefixed type, and
  two varuints for an identifier pair.  \<open>None\<close>: not one of the five wire types, or a
  length prefix cut short by the end of the buffer.
\<close>

fun spec_varuint_size :: "byte list \<Rightarrow> nat" where
  "spec_varuint_size [] = 0"
| "spec_varuint_size (b # bs) = (if b AND 0x80 = 0 then 1 else 1 + spec_varuint_size bs)"

fun spec_varuint_value :: "byte list \<Rightarrow> int" where
  "spec_varuint_value [] = 0"
| "spec_varuint_value (b # bs) =
     uint (b AND 0x7F) + (if b AND 0x80 = 0 then 0 else 128 * spec_varuint_value bs)"

definition spec_payload_size :: "int \<Rightarrow> byte list \<Rightarrow> nat option" where
  "spec_payload_size wtype bs =
     (if wtype = TAG_Byte1 then Some 1
      else if wtype = TAG_Byte4 then Some 4
      else if wtype = TAG_Byte8 then Some 8
      else if wtype = TAG_Length4 then
        (if 4 \<le> length bs then Some (4 + nat (le_int (take 4 bs))) else None)
      else if wtype = TAG_ID then
        Some (spec_varuint_size bs + spec_varuint_size (drop (spec_varuint_size bs) bs))
      else None)"

text \<open>
  The test of the block scan, as the specification words it: a block is accepted only
  if its declared length is nonzero, fits within the rest of the buffer behind the
  8-byte block header, and is at most 10,000,000.
\<close>

definition spec_block_rejected :: "buffer \<Rightarrow> nat \<Rightarrow> bool" where
  "spec_block_rejected buf c =
     (view_bytes buf c 4 = 0 \<or> view_bytes buf c 4 > int (length buf) - int (c + 8) \<or>
      view_bytes buf c 4 > 10000000)"

text \<open>
  The structural checks of revisions 3 and 5, as the specification words them.  A stroke
  at cursor \<open>c\<close> is refused when its header would end beyond the buffer, when its point
  count is negative or above 100,000, or when its points would end beyond the buffer; a
  layer at cursor \<open>c\<close> is refused when its stroke count cannot be read or is negative or
  above 100,000.
\<close>

definition spec_stroke_error :: "RMVersion \<Rightarrow> buffer \<Rightarrow> nat \<Rightarrow> string option" where
  "spec_stroke_error ver buf c =
     (let hs = (if ver = V3 then 20 else 24);
          np = signed32 (view_bytes buf (c + hs - 4) 4)
      in if length buf < c + hs then Some ''Cannot read stroke header''
         else if np < 0 \<or> 100000 < np then Some (''Invalid point count: '' @ show_int np)
         else if int (length buf) < int (c + hs) + np * 24 then
           Some (''Not enough bytes for '' @ show_int np @ '' points'')
         else None)"

definition spec_stroke_count_error :: "buffer \<Rightarrow> nat \<Rightarrow> string option" where
  "spec_stroke_count_error buf c =
     (let ns = signed32 (view_bytes buf c 4)
      in if length buf < c + 4 then Some ''Cannot read stroke count''
         else if ns < 0 \<or> 100000 < ns then Some (''Invalid stroke count: '' @ show_int ns)
         else None)"


section \<open>Notions used to state what the converter does\<close>

text \<open>
  The least and the greatest of a list of numbers, in the order of numbers, where
  \<^verbatim>\<open>NaN\<close> is neither below nor above anything; and the numbers that are finite.
\<close>

definition is_least :: "number \<Rightarrow> number list \<Rightarrow> bool" where
  "is_least m vs = (m \<in> set vs \<and> (\<forall>v \<in> set vs. num_le m v))"

definition is_greatest :: "number \<Rightarrow> number list \<Rightarrow> bool" where
  "is_greatest m vs = (m \<in> set vs \<and> (\<forall>v \<in> set vs. num_le v m))"

fun finite_number :: "number \<Rightarrow> bool" where
  "finite_number (Num r) = True"
| "finite_number v = False"

section \<open>Example inputs\<close>

definition example_services :: Services where
  "example_services =
     \<lparr>nextId = (\<lambda>n. ''id-'' @ show_int (int n)), nextSeed = (\<lambda>n. 7 + int n),
      nextNow = (\<lambda>n. 1700000000000 + int n)\<rparr>"

definition example_calls :: Calls where
  "example_calls = \<lparr>idCalls = 0, seedCalls = 0, nowCalls = 0\<rparr>"

definition example_converter :: ExcalidrawConverter where
  "example_converter =
     \<lparr>options = DEFAULT_OPTIONS, layerGroupIds = (\<lambda>_. None), backgroundImage = None\<rparr>"

definition example_point :: "number \<Rightarrow> number \<Rightarrow> Point" where
  "example_point a b =
     \<lparr>Point.x = a, Point.y = b, pressure = Num 1, Point.width = Num 0, speed = Num 0,
      direction = Num 0\<rparr>"

definition example_stroke :: "int \<Rightarrow> Stroke" where
  "example_stroke p =
     \<lparr>pen = p, color = 0, Stroke.width = Num 2,
      Stroke.points = [example_point (Num 3) (Num 5), example_point (Num 1) (Num 9),
                       example_point (Num 4) (Num 2)],
      layerIndex = 0\<rparr>"


definition example_document :: "int \<Rightarrow> int \<Rightarrow> ParsedDocument" where
  "example_document p q =
     \<lparr>ParsedDocument.version = V5,
      layers = [[example_stroke p,
                 (example_stroke q)\<lparr>Stroke.points := []\<rparr>],
                [example_stroke q]]\<rparr>"

definition example_point_record :: buffer where
  "example_point_record = [0, 0, 0x20, 0x41, 0, 0, 0x20, 0xC1, 0xFF, 0xFF, 0xFF, 0xFF, 0xFF, 0xFF]"

definition example_unknown_fields :: buffer where
  "example_unknown_fields =
     [0x94, 0x01, 9, 9, 9, 9,
      0x9C, 0x01, 2, 0, 0, 0, 7, 7,
      0x9F, 0x01, 0x85, 0x02, 0x03,
      0x14, 3, 0, 0, 0]"

definition example_wide_tag :: buffer where
  "example_wide_tag =
     [0x98, 0x80, 0x80, 0x80, 0x10,  0x24, 5, 0, 0, 0, 0, 0, 0,
      0x14, 3, 0, 0, 0]"

definition example_header_v6 :: buffer where
  "example_header_v6 =
     map (\<lambda>ch. of_nat (of_char ch)) ''reMarkable .lines file, version=6          ''"

definition example_line_block_A :: buffer where
  "example_line_block_A =
     [19, 0, 0, 0,  0, 2, 2, 5,
      0x5C, 14, 0, 0, 0,
      0, 0, 0x20, 0x41,  0, 0, 0x20, 0xC1,  0xFF, 0xFF,  0xFF, 0xFF,  0xFF,  0xFF]"

definition example_line_block_B :: buffer where
  "example_line_block_B =
     [24, 0, 0, 0,  0, 2, 2, 5,
      0x14, 3, 0, 0, 0,
      0x5C, 14, 0, 0, 0,
      0, 0, 0, 0,  0, 0, 0, 0x40,  0, 0,  0, 0,  0,  0]"

text \<open>
  Two line-definition blocks with a bit pattern that is not a finite number: an x
  coordinate of \<^verbatim>\<open>+Infinity\<close> (\<^verbatim>\<open>00 00 80 7F\<close>), and a thickness, field 3, of
  \<^verbatim>\<open>NaN\<close> (\<^verbatim>\<open>00 00 00 00 00 00 F8 7F\<close>).
\<close>

definition example_line_block_far :: buffer where
  "example_line_block_far =
     [19, 0, 0, 0,  0, 2, 2, 5,
      0x5C, 14, 0, 0, 0,
      0, 0, 0x80, 0x7F,  0, 0, 0x20, 0xC1,  0xFF, 0xFF,  0xFF, 0xFF,  0xFF,  0xFF]"

definition example_stroke_far :: Stroke where
  "example_stroke_far =
     \<lparr>pen = 0, color = 0, Stroke.width = Num 1,
      Stroke.points = [\<lparr>Point.x = PosInfinity, Point.y = Num (- 10), pressure = Num 1,
                        Point.width = Num 1, speed = Num 1, direction = Num 360\<rparr>],
      layerIndex = 0\<rparr>"



definition example_other_block :: buffer where
  "example_other_block = [8, 0, 0, 0,  0, 1, 1, 1,  4, 0, 0, 0,  9, 9, 9, 9]"

definition example_stroke_A :: Stroke where
  "example_stroke_A =
     \<lparr>pen = 0, color = 0, Stroke.width = Num 1,
      Stroke.points = [\<lparr>Point.x = Num 10, Point.y = Num (- 10), pressure = Num 1,
                        Point.width = Num 1, speed = Num 1, direction = Num 360\<rparr>],
      layerIndex = 0\<rparr>"

definition example_stroke_B :: Stroke where
  "example_stroke_B =
     \<lparr>pen = 3, color = 0, Stroke.width = Num 1,
      Stroke.points = [\<lparr>Point.x = Num 0, Point.y = Num 2, pressure = Num 0, Point.width = Num 0,
                        speed = Num 0, direction = Num 0\<rparr>],
      layerIndex = 0\<rparr>"

definition example_small_block :: buffer where
  "example_small_block = [4, 0, 0, 0,  0, 1, 1, 1,  9, 9, 9, 9]"

definition example_header_v9 :: buffer where
  "example_header_v9 =
     map (\<lambda>ch. of_nat (of_char ch)) ''reMarkable .lines file, version=9          ''"

definition example_header_v60 :: buffer where
  "example_header_v60 =
     map (\<lambda>ch. of_nat (of_char ch)) ''reMarkable .lines file, version=60         ''"

definition example_v5_truncated :: buffer where
  "example_v5_truncated =
     map (\<lambda>ch. of_nat (of_char ch)) ''reMarkable .lines file, version=5          '' @
     [1, 0, 0, 0,
      2, 0, 0, 0,
      2, 0, 0, 0,  0, 0, 0, 0,  0, 0, 0, 0,  0, 0, 0, 0x40,  0, 0, 0, 0,  1, 0, 0, 0,
      0, 0, 0x20, 0x41,  0, 0, 0, 0,  0, 0, 0, 0,  0, 0, 0, 0,  0, 0, 0, 0,  0, 0, 0x80, 0x3F,
      0, 0, 0, 0,  0, 0, 0, 0,  0, 0, 0, 0,  0, 0, 0x80, 0x3F,  0, 0, 0, 0,  3, 0, 0, 0,
      0, 0, 0, 0,  0, 0, 0, 0,  0, 0, 0, 0,  0, 0, 0, 0,  0, 0, 0, 0,  0, 0, 0, 0]"

definition example_stroke_0 :: Stroke where
  "example_stroke_0 =
     \<lparr>pen = 2, color = 0, Stroke.width = Num 2,
      Stroke.points = [\<lparr>Point.x = Num 10, Point.y = Num 0, pressure = Num 1, Point.width = Num 0,
                        speed = Num 0, direction = Num 0\<rparr>],
      layerIndex = 0\<rparr>"

section \<open>Properties of the tables and of the width computation\<close>


text \<open>
  Claim C8.  Resolving a pen to its style and a colour to its hex string never fails:
  the result is an entry of the table or the fallback.  A pen outside the sixteen values
  of \<^verbatim>\<open>PenType\<close> gets exactly the fallback style (multiplier 1.0, pressure-sensitive,
  opacity 100, roughness 1, solid, no simulated pressure), and a colour outside the nine
  values of \<^verbatim>\<open>RMColor\<close> gets black, \<^verbatim>\<open>#000000\<close>.
\<close>

theorem open_enumeration_fallback:
  "(p \<notin> {BALLPOINT, MARKER, FINELINER, HIGHLIGHTER, ERASER, MECHANICAL_PENCIL, PAINTBRUSH,
          CALLIGRAPHY, PENCIL, BALLPOINT_V2, MARKER_V2, FINELINER_V2, HIGHLIGHTER_V2, ERASER_V2,
          MECHANICAL_PENCIL_V2, PAINTBRUSH_V2} \<longrightarrow>
      getPenCharacteristics p =
        \<lparr>baseMultiplier = 1.0, pressureSensitive = True, opacity = 100, roughness = 1,
         strokeStyle = ''solid'', simulatePressure = False\<rparr>) \<and>
   (col \<notin> {BLACK, GRAY, WHITE, YELLOW, GREEN, PINK, BLUE, RED, GRAY_OVERLAP} \<longrightarrow>
      getHexColor col = ''#000000'') \<and>
   (getPenCharacteristics p \<in> insert DEFAULT_PEN_CHARACTERISTICS (snd ` set PEN_CHARACTERISTICS)) \<and>
   (getHexColor col \<in> snd ` set COLOR_MAP)"
proof (intro conjI impI)
  assume "p \<notin> {BALLPOINT, MARKER, FINELINER, HIGHLIGHTER, ERASER, MECHANICAL_PENCIL, PAINTBRUSH,
          CALLIGRAPHY, PENCIL, BALLPOINT_V2, MARKER_V2, FINELINER_V2, HIGHLIGHTER_V2, ERASER_V2,
          MECHANICAL_PENCIL_V2, PAINTBRUSH_V2}"
  then show "getPenCharacteristics p =
        \<lparr>baseMultiplier = 1.0, pressureSensitive = True, opacity = 100, roughness = 1,
         strokeStyle = ''solid'', simulatePressure = False\<rparr>"
    by (simp add: getPenCharacteristics_def PEN_CHARACTERISTICS_def DEFAULT_PEN_CHARACTERISTICS_def)
next
  assume "col \<notin> {BLACK, GRAY, WHITE, YELLOW, GREEN, PINK, BLUE, RED, GRAY_OVERLAP}"
  then show "getHexColor col = ''#000000''"
    by (simp add: getHexColor_def COLOR_MAP_def)
next
  show "getPenCharacteristics p \<in> insert DEFAULT_PEN_CHARACTERISTICS (snd ` set PEN_CHARACTERISTICS)"
    unfolding getPenCharacteristics_def
    by (auto split: option.splits dest!: map_of_SomeD intro: rev_image_eqI)
next
  show "getHexColor col \<in> snd ` set COLOR_MAP"
  proof (cases "map_of COLOR_MAP col")
    case None
    then show ?thesis by (simp add: getHexColor_def COLOR_MAP_def)
  next
    case (Some h)
    then show ?thesis
      unfolding getHexColor_def by (auto dest!: map_of_SomeD intro: rev_image_eqI)
  qed
qed

theorem open_enumeration_fallback_witness:
  "getPenCharacteristics 9 =
     \<lparr>baseMultiplier = 1.0, pressureSensitive = True, opacity = 100, roughness = 1,
      strokeStyle = ''solid'', simulatePressure = False\<rparr> \<and>
   getHexColor 42 = ''#000000'' \<and> getPenCharacteristics (- 1) = getPenCharacteristics 9"
  using open_enumeration_fallback [of 9 42] open_enumeration_fallback [of "- 1" 42]
  by (simp add: BALLPOINT_def MARKER_def FINELINER_def HIGHLIGHTER_def ERASER_def
      MECHANICAL_PENCIL_def PAINTBRUSH_def CALLIGRAPHY_def PENCIL_def BALLPOINT_V2_def
      MARKER_V2_def FINELINER_V2_def HIGHLIGHTER_V2_def ERASER_V2_def MECHANICAL_PENCIL_V2_def
      PAINTBRUSH_V2_def BLACK_def GRAY_def WHITE_def YELLOW_def GREEN_def PINK_def BLUE_def
      RED_def GRAY_OVERLAP_def)










section \<open>Version detection\<close>

lemma parse_invalid:
  "\<not> valid (validateHeader buf) \<Longrightarrow> error (validateHeader buf) = Some e \<Longrightarrow> e \<noteq> [] \<Longrightarrow>
     parse buf = Some (Failure \<lparr>message = e, offset = 0\<rparr>)"
  by (simp add: parse_def Let_def)

text \<open>
  The number that \<^verbatim>\<open>/version=(\d+)/\<close> captures in a header that starts with the general
  magic is the run of digits right behind it.
\<close>

lemma match_version_after_magic:
  assumes "ds \<noteq> []" and "\<forall>u \<in> set ds. is_digit u" and "rest = [] \<or> \<not> is_digit (hd rest)"
  shows "match_version (js_string ''reMarkable .lines file, version='' @ ds @ rest) = Some ds"
proof -
  have tw: "takeWhile is_digit (ds @ rest) = ds"
    using assms(2,3) by (cases rest) simp_all
  show ?thesis
    using assms(1) by (simp add: js_string_def tw)
qed

text \<open>
  Claim C1, as the code has it.  The decode succeeds only for a buffer of at least 33
  bytes whose header text starts with one of the three magic strings.  A header that
  starts with the general magic, with none of the three, and has digits behind
  \<^verbatim>\<open>version=\<close> gives the error that names the parsed number.  A buffer of fewer than 33
  bytes gives the error that it is too small, and every other buffer the error of the
  missing magic string.
\<close>

theorem header_classification:
  "(parse buf = Some (Success d) \<longrightarrow>
      33 \<le> length buf \<and>
      (startsWith (header_text buf) HEADER_V6 \<or> startsWith (header_text buf) HEADER_V5 \<or>
       startsWith (header_text buf) HEADER_V3)) \<and>
   (33 \<le> length buf \<and> \<not> startsWith (header_text buf) HEADER_V6 \<and>
    \<not> startsWith (header_text buf) HEADER_V5 \<and> \<not> startsWith (header_text buf) HEADER_V3 \<and>
    startsWith (header_text buf) ''reMarkable .lines file, version='' \<and>
    match_version (header_text buf) = Some ds \<longrightarrow>
      parse buf = Some (Failure \<lparr>message = ''Unsupported version: '' @ show_int (parseInt ds)
                                          @ ''. Supported versions: 3, 5, 6'',
                               offset = 0\<rparr>)) \<and>
   (length buf < 33 \<longrightarrow>
      parse buf = Some (Failure \<lparr>message = ''File too small: '' @ show_int (int (length buf))
                                          @ '' bytes, minimum 33 required'',
                               offset = 0\<rparr>)) \<and>
   (33 \<le> length buf \<and> \<not> startsWith (header_text buf) HEADER_V6 \<and>
    \<not> startsWith (header_text buf) HEADER_V5 \<and> \<not> startsWith (header_text buf) HEADER_V3 \<and>
    (\<not> startsWith (header_text buf) ''reMarkable .lines file, version='' \<or>
     match_version (header_text buf) = None) \<longrightarrow>
      parse buf = Some (Failure \<lparr>message = ''Invalid file format: missing reMarkable header magic string'',
                               offset = 0\<rparr>))"
proof -
  have p1: "parse buf = Some (Success d) \<longrightarrow>
      33 \<le> length buf \<and>
      (startsWith (header_text buf) HEADER_V6 \<or> startsWith (header_text buf) HEADER_V5 \<or>
       startsWith (header_text buf) HEADER_V3)"
  proof (rule impI, rule ccontr)
    assume s: "parse buf = Some (Success d)"
    assume n: "\<not> (33 \<le> length buf \<and>
      (startsWith (header_text buf) HEADER_V6 \<or> startsWith (header_text buf) HEADER_V5 \<or>
       startsWith (header_text buf) HEADER_V3))"
    have "\<not> valid (validateHeader buf)"
    proof (cases "length buf < 33")
      case True
      then show ?thesis by (simp add: validateHeader_def)
    next
      case False
      with n have "\<not> startsWith (header_text buf) HEADER_V6"
        "\<not> startsWith (header_text buf) HEADER_V5" "\<not> startsWith (header_text buf) HEADER_V3"
        by simp_all
      with False show ?thesis
        by (simp add: validateHeader_def Let_def invalid_format_def split: option.split)
    qed
    then have "\<exists>e. parse buf = Some (Failure e)"
      by (simp add: parse_def Let_def)
    with s show False by auto
  qed
  have p2: "33 \<le> length buf \<and> \<not> startsWith (header_text buf) HEADER_V6 \<and>
    \<not> startsWith (header_text buf) HEADER_V5 \<and> \<not> startsWith (header_text buf) HEADER_V3 \<and>
    startsWith (header_text buf) ''reMarkable .lines file, version='' \<and>
    match_version (header_text buf) = Some ds \<longrightarrow>
      parse buf = Some (Failure \<lparr>message = ''Unsupported version: '' @ show_int (parseInt ds)
                                          @ ''. Supported versions: 3, 5, 6'',
                               offset = 0\<rparr>)"
  proof
    assume "33 \<le> length buf \<and> \<not> startsWith (header_text buf) HEADER_V6 \<and>
      \<not> startsWith (header_text buf) HEADER_V5 \<and> \<not> startsWith (header_text buf) HEADER_V3 \<and>
      startsWith (header_text buf) ''reMarkable .lines file, version='' \<and>
      match_version (header_text buf) = Some ds"
    then have "validateHeader buf =
        \<lparr>valid = False, HeaderValidation.version = UNKNOWN,
         error = Some (''Unsupported version: '' @ show_int (parseInt ds)
                       @ ''. Supported versions: 3, 5, 6'')\<rparr>"
      by (simp add: validateHeader_def Let_def)
    then show "parse buf = Some (Failure \<lparr>message = ''Unsupported version: '' @ show_int (parseInt ds)
                                            @ ''. Supported versions: 3, 5, 6'',
                                 offset = 0\<rparr>)"
      by (intro parse_invalid) simp_all
  qed
  have p3: "length buf < 33 \<longrightarrow>
      parse buf = Some (Failure \<lparr>message = ''File too small: '' @ show_int (int (length buf))
                                          @ '' bytes, minimum 33 required'',
                               offset = 0\<rparr>)"
  proof
    assume "length buf < 33"
    then have "validateHeader buf =
        \<lparr>valid = False, HeaderValidation.version = UNKNOWN,
         error = Some (''File too small: '' @ show_int (int (length buf))
                       @ '' bytes, minimum 33 required'')\<rparr>"
      by (simp add: validateHeader_def)
    then show "parse buf = Some (Failure \<lparr>message = ''File too small: '' @ show_int (int (length buf))
                                            @ '' bytes, minimum 33 required'',
                                 offset = 0\<rparr>)"
      by (intro parse_invalid) simp_all
  qed
  have p4: "33 \<le> length buf \<and> \<not> startsWith (header_text buf) HEADER_V6 \<and>
    \<not> startsWith (header_text buf) HEADER_V5 \<and> \<not> startsWith (header_text buf) HEADER_V3 \<and>
    (\<not> startsWith (header_text buf) ''reMarkable .lines file, version='' \<or>
     match_version (header_text buf) = None) \<longrightarrow>
      parse buf = Some (Failure \<lparr>message = ''Invalid file format: missing reMarkable header magic string'',
                               offset = 0\<rparr>)"
  proof
    assume h: "33 \<le> length buf \<and> \<not> startsWith (header_text buf) HEADER_V6 \<and>
      \<not> startsWith (header_text buf) HEADER_V5 \<and> \<not> startsWith (header_text buf) HEADER_V3 \<and>
      (\<not> startsWith (header_text buf) ''reMarkable .lines file, version='' \<or>
       match_version (header_text buf) = None)"
    have "validateHeader buf = invalid_format"
    proof (cases "startsWith (header_text buf) ''reMarkable .lines file, version=''")
      case True
      with h have "match_version (header_text buf) = None" by simp
      with h True show ?thesis by (simp add: validateHeader_def Let_def)
    next
      case False
      with h show ?thesis by (simp add: validateHeader_def Let_def)
    qed
    then show "parse buf = Some (Failure \<lparr>message = ''Invalid file format: missing reMarkable header magic string'',
                                 offset = 0\<rparr>)"
      by (intro parse_invalid) (simp_all add: invalid_format_def)
  qed
  from p1 p2 p3 p4 show ?thesis by (intro conjI)
qed

theorem header_classification_witness:
  "parse example_header_v9
     = Some (Failure \<lparr>message = ''Unsupported version: 9. Supported versions: 3, 5, 6'',
                      offset = 0\<rparr>) \<and>
   parse (take 20 example_header_v9)
     = Some (Failure \<lparr>message = ''File too small: 20 bytes, minimum 33 required'', offset = 0\<rparr>) \<and>
   parse (drop 1 example_header_v9)
     = Some (Failure \<lparr>message = ''Invalid file format: missing reMarkable header magic string'',
                      offset = 0\<rparr>)"
proof -
  have a: "33 \<le> length example_header_v9 \<and> \<not> startsWith (header_text example_header_v9) HEADER_V6 \<and>
    \<not> startsWith (header_text example_header_v9) HEADER_V5 \<and>
    \<not> startsWith (header_text example_header_v9) HEADER_V3 \<and>
    startsWith (header_text example_header_v9) ''reMarkable .lines file, version='' \<and>
    match_version (header_text example_header_v9) = Some (js_string ''9'')"
    by code_simp
  have a': "''Unsupported version: '' @ show_int (parseInt (js_string ''9'')) @ ''. Supported versions: 3, 5, 6''
              = ''Unsupported version: 9. Supported versions: 3, 5, 6''"
    by code_simp
  have b: "length (take 20 example_header_v9) < 33" by (simp add: example_header_v9_def)
  have b': "''File too small: '' @ show_int (int (length (take 20 example_header_v9)))
              @ '' bytes, minimum 33 required'' = ''File too small: 20 bytes, minimum 33 required''"
    by code_simp
  have c: "33 \<le> length (drop 1 example_header_v9) \<and>
    \<not> startsWith (header_text (drop 1 example_header_v9)) HEADER_V6 \<and>
    \<not> startsWith (header_text (drop 1 example_header_v9)) HEADER_V5 \<and>
    \<not> startsWith (header_text (drop 1 example_header_v9)) HEADER_V3 \<and>
    (\<not> startsWith (header_text (drop 1 example_header_v9)) ''reMarkable .lines file, version='' \<or>
     match_version (header_text (drop 1 example_header_v9)) = None)"
    by code_simp
  note h1 = header_classification [of example_header_v9 undefined "js_string ''9''"]
  note h2 = header_classification [of "take 20 example_header_v9" undefined "[]"]
  note h3 = header_classification [of "drop 1 example_header_v9" undefined "[]"]
  have r1: "parse example_header_v9
     = Some (Failure \<lparr>message = ''Unsupported version: 9. Supported versions: 3, 5, 6'',
                      offset = 0\<rparr>)"
    using h1 [THEN conjunct2, THEN conjunct1, THEN mp, OF a] unfolding a' .
  have r2: "parse (take 20 example_header_v9)
     = Some (Failure \<lparr>message = ''File too small: 20 bytes, minimum 33 required'', offset = 0\<rparr>)"
    using h2 [THEN conjunct2, THEN conjunct2, THEN conjunct1, THEN mp, OF b] unfolding b' .
  have r3: "parse (drop 1 example_header_v9)
     = Some (Failure \<lparr>message = ''Invalid file format: missing reMarkable header magic string'',
                      offset = 0\<rparr>)"
    using h3 [THEN conjunct2, THEN conjunct2, THEN conjunct2, THEN mp, OF c] .
  from r1 r2 r3 show ?thesis by (intro conjI)
qed

text \<open>
  The magic strings are matched as prefixes, so revision 60 reads as revision 6: the
  header matches the general pattern with a number that is none of 3, 5 and 6, and the
  decode succeeds.
\<close>

theorem header_classification_counterexample:
  "startsWith (header_text example_header_v60) ''reMarkable .lines file, version='' \<and>
   match_version (header_text example_header_v60) = Some (js_string ''60'') \<and>
   parseInt (js_string ''60'') = 60 \<and>
   parse example_header_v60 = Some (Success \<lparr>ParsedDocument.version = V6, layers = [[]]\<rparr>)"
  by code_simp

section \<open>Structural errors of revisions 3 and 5\<close>

lemma parseStroke_refused:
  assumes "spec_stroke_error ver buf c = Some e"
  shows "\<exists>c'. parseStroke ver buf layer c = Done (Inl e) c'"
proof (cases "ver = V3")
  case True
  with assms show ?thesis
    by (auto simp: spec_stroke_error_def parseStroke_def Let_def andThen_def getInt32_def
        getFloat32_def add.commute split: if_splits)
next
  case False
  with assms show ?thesis
    by (auto simp: spec_stroke_error_def parseStroke_def Let_def andThen_def getInt32_def
        getFloat32_def add.commute split: if_splits)
qed

lemma parseStrokes_run:
  "j \<le> i \<Longrightarrow> i \<le> n \<Longrightarrow> parseStrokes ver buf layer i j c ss = Done (Inr ss') c' \<Longrightarrow>
     parseStrokes ver buf layer n j c ss = parseStrokes ver buf layer n i c' ss'"
proof (induction ver buf layer i j c ss rule: parseStrokes.induct)
  case (1 ver buf layer i j c ss)
  show ?case
  proof (cases "j < i")
    case False
    with "1.prems" have "j = i" by simp
    with "1.prems"(3) show ?thesis
      by (simp add: parseStrokes.simps [of ver buf layer i i c ss])
  next
    case True
    with "1.prems"(2) have jn: "j < n" by simp
    from "1.prems"(3) True obtain stroke c1 where
      ps: "parseStroke ver buf layer c = Done (Inr stroke) c1"
      and rest: "parseStrokes ver buf layer i (j + 1) c1 (ss @ [stroke]) = Done (Inr ss') c'"
      by (auto simp: parseStrokes.simps [of ver buf layer i j c ss]
          split: outcome.splits sum.splits)
    from True have "j + 1 \<le> i" by simp
    from "1.IH" [OF True ps refl this "1.prems"(2) rest]
    have "parseStrokes ver buf layer n (j + 1) c1 (ss @ [stroke])
            = parseStrokes ver buf layer n i c' ss'" .
    with jn ps show ?thesis
      by (simp add: parseStrokes.simps [of ver buf layer n j c ss])
  qed
qed

lemma parseLayers_run:
  "j \<le> i \<Longrightarrow> i \<le> n \<Longrightarrow> parseLayers ver buf i j c ls = Done (Success d) c' \<Longrightarrow>
     parseLayers ver buf n j c ls = parseLayers ver buf n i c' (layers d)"
proof (induction ver buf i j c ls rule: parseLayers.induct)
  case (1 ver buf i j c ls)
  show ?case
  proof (cases "j < i")
    case False
    with "1.prems" have "j = i" by simp
    with "1.prems"(3) show ?thesis
      by (auto simp: parseLayers.simps [of ver buf i i c ls])
  next
    case True
    with "1.prems"(2) have jn: "j < n" by simp
    from "1.prems"(3) True obtain strokes c1 where
      pl: "parseLayer ver buf j c = Done (Inr strokes) c1"
      and rest: "parseLayers ver buf i (j + 1) c1 (ls @ [strokes]) = Done (Success d) c'"
      by (auto simp: parseLayers.simps [of ver buf i j c ls]
          split: outcome.splits sum.splits)
    from True have "j + 1 \<le> i" by simp
    from "1.IH" [OF True pl refl this "1.prems"(2) rest]
    have "parseLayers ver buf n (j + 1) c1 (ls @ [strokes])
            = parseLayers ver buf n i c' (layers d)" .
    with jn pl show ?thesis
      by (simp add: parseLayers.simps [of ver buf n j c ls])
  qed
qed

lemma parseLayer_count_refused:
  assumes "spec_stroke_count_error buf c = Some e"
  shows "\<exists>c'. parseLayer ver buf layer c = Done (Inl e) c'"
  using assms
  by (auto simp: spec_stroke_count_error_def parseLayer_def Let_def andThen_def getInt32_def
      split: if_splits)

lemma parseLayer_stroke_refused:
  assumes "spec_stroke_count_error buf c = None"
    and "i < nat (signed32 (view_bytes buf c 4))"
    and "parseStrokes ver buf layer i 0 (c + 4) [] = Done (Inr ss) ci"
    and "spec_stroke_error ver buf ci = Some e"
  shows "\<exists>c'. parseLayer ver buf layer c
                 = Done (Inl (''Stroke '' @ show_int (int i) @ '': '' @ e)) c'"
proof -
  let ?n = "nat (signed32 (view_bytes buf c 4))"
  from assms(1) have pl: "parseLayer ver buf layer c = parseStrokes ver buf layer ?n 0 (c + 4) []"
    by (auto simp: spec_stroke_count_error_def parseLayer_def Let_def andThen_def getInt32_def
        split: if_splits)
  from assms(2) have "i \<le> ?n" by simp
  from parseStrokes_run [OF _ this assms(3)]
  have run: "parseStrokes ver buf layer ?n 0 (c + 4) [] = parseStrokes ver buf layer ?n i ci ss"
    by simp
  from parseStroke_refused [OF assms(4), of layer]
  obtain c' where "parseStroke ver buf layer ci = Done (Inl e) c'" by blast
  with assms(2) have "parseStrokes ver buf layer ?n i ci ss
                        = Done (Inl (''Stroke '' @ show_int (int i) @ '': '' @ e)) c'"
    by (simp add: parseStrokes.simps [of ver buf layer ?n i ci ss])
  with pl run show ?thesis by simp
qed

lemma parseLayers_refused:
  assumes "L < n" and "parseLayers ver buf L 0 c [] = Done (Success d) cL"
    and "parseLayer ver buf L cL = Done (Inl e) c'"
  shows "parseLayers ver buf n 0 c []
           = Done (Failure \<lparr>message = ''Failed to parse layer '' @ show_int (int L) @ '': '' @ e,
                            offset = c'\<rparr>) c'"
proof -
  from assms(1) have "L \<le> n" by simp
  from parseLayers_run [OF _ this assms(2)]
  have "parseLayers ver buf n 0 c [] = parseLayers ver buf n L cL (layers d)" by simp
  also have "\<dots> = Done (Failure \<lparr>message = ''Failed to parse layer '' @ show_int (int L) @ '': '' @ e,
                                   offset = c'\<rparr>) c'"
    using assms(1,3) by (simp add: parseLayers.simps [of ver buf n L cL "layers d"])
  finally show ?thesis .
qed

lemma parse_v5:
  assumes "ver = V3 \<or> ver = V5"
    and "validateHeader buf = \<lparr>valid = True, HeaderValidation.version = ver, error = None\<rparr>"
    and "parseV5 ver buf = Done r c"
  shows "parse buf = Some r"
  using assms by (auto simp: parse_def Let_def)

lemma parseV5_layers:
  assumes "ver = V3 \<or> ver = V5"
    and "(if ver = V3 then 33 else 43) + 4 \<le> length buf"
    and "0 \<le> signed32 (view_bytes buf (if ver = V3 then 33 else 43) 4)"
    and "signed32 (view_bytes buf (if ver = V3 then 33 else 43) 4) \<le> 100"
  shows "parseV5 ver buf
           = parseLayers ver buf (nat (signed32 (view_bytes buf (if ver = V3 then 33 else 43) 4))) 0
               ((if ver = V3 then 33 else 43) + 4) []"
  using assms
  by (auto simp: parseV5_def HEADER_SIZES_def Let_def andThen_def getInt32_def)

text \<open>
  Claim C3.  For a buffer with a revision-3 or revision-5 header the decode returns a
  failure, which carries no document, when the layer count cannot be read or is negative
  or above 100; when, the layers before layer \<open>L\<close> decoded, the stroke count of layer
  \<open>L\<close> cannot be read or is negative or above 100,000; and when, the strokes before
  stroke \<open>i\<close> of that layer decoded, the header of stroke \<open>i\<close> would end beyond the buffer,
  its point count is negative or above 100,000, or its points would end beyond the
  buffer.  The message names the layer and the stroke, and the first failure is the
  result of the whole decode.
\<close>

theorem v5_structural_errors:
  assumes "ver = V3 \<or> ver = V5"
    and "validateHeader buf = \<lparr>valid = True, HeaderValidation.version = ver, error = None\<rparr>"
    and "hs = (if ver = V3 then 33 else 43)"
    and "nl = signed32 (view_bytes buf hs 4)"
  shows
    "(length buf < hs + 4 \<longrightarrow>
        parse buf = Some (Failure \<lparr>message = ''Unexpected end of file: cannot read layer count'',
                                 offset = hs\<rparr>)) \<and>
     (hs + 4 \<le> length buf \<and> (nl < 0 \<or> 100 < nl) \<longrightarrow>
        parse buf = Some (Failure \<lparr>message = ''Invalid layer count: '' @ show_int nl
                                            @ ''. Expected 0-100.'',
                                 offset = hs\<rparr>)) \<and>
     (hs + 4 \<le> length buf \<and> 0 \<le> nl \<and> nl \<le> 100 \<and> L < nat nl \<and>
      parseLayers ver buf L 0 (hs + 4) [] = Done (Success dL) cL \<and>
      spec_stroke_count_error buf cL = Some e \<longrightarrow>
        (\<exists>off. parse buf = Some (Failure \<lparr>message = ''Failed to parse layer '' @ show_int (int L)
                                                    @ '': '' @ e,
                                         offset = off\<rparr>))) \<and>
     (hs + 4 \<le> length buf \<and> 0 \<le> nl \<and> nl \<le> 100 \<and> L < nat nl \<and>
      parseLayers ver buf L 0 (hs + 4) [] = Done (Success dL) cL \<and>
      spec_stroke_count_error buf cL = None \<and> i < nat (signed32 (view_bytes buf cL 4)) \<and>
      parseStrokes ver buf L i 0 (cL + 4) [] = Done (Inr ss) ci \<and>
      spec_stroke_error ver buf ci = Some e \<longrightarrow>
        (\<exists>off. parse buf = Some (Failure \<lparr>message = ''Failed to parse layer '' @ show_int (int L)
                                                    @ '': Stroke '' @ show_int (int i) @ '': '' @ e,
                                         offset = off\<rparr>)))"
proof -
  have hsz: "(if ver = V3 then 33 else 43) = hs" using assms(3) by simp
  have pA: "length buf < hs + 4 \<longrightarrow>
        parse buf = Some (Failure \<lparr>message = ''Unexpected end of file: cannot read layer count'',
                                 offset = hs\<rparr>)"
  proof
    assume "length buf < hs + 4"
    then have "parseV5 ver buf
                 = Done (Failure \<lparr>message = ''Unexpected end of file: cannot read layer count'',
                                  offset = hs\<rparr>) hs"
      using assms(1,3) by (auto simp: parseV5_def HEADER_SIZES_def Let_def)
    from parse_v5 [OF assms(1,2) this]
    show "parse buf = Some (Failure \<lparr>message = ''Unexpected end of file: cannot read layer count'',
                                 offset = hs\<rparr>)" .
  qed
  have pB: "hs + 4 \<le> length buf \<and> (nl < 0 \<or> 100 < nl) \<longrightarrow>
        parse buf = Some (Failure \<lparr>message = ''Invalid layer count: '' @ show_int nl
                                            @ ''. Expected 0-100.'',
                                 offset = hs\<rparr>)"
  proof
    assume "hs + 4 \<le> length buf \<and> (nl < 0 \<or> 100 < nl)"
    then have "parseV5 ver buf
                 = Done (Failure \<lparr>message = ''Invalid layer count: '' @ show_int nl
                                            @ ''. Expected 0-100.'',
                                  offset = hs\<rparr>) (hs + 4)"
      using assms(1,3,4)
      by (auto simp: parseV5_def HEADER_SIZES_def Let_def andThen_def getInt32_def)
    from parse_v5 [OF assms(1,2) this]
    show "parse buf = Some (Failure \<lparr>message = ''Invalid layer count: '' @ show_int nl
                                            @ ''. Expected 0-100.'',
                                 offset = hs\<rparr>)" .
  qed
  have layer_fail: "\<exists>off. parse buf = Some (Failure \<lparr>message = ''Failed to parse layer ''
                        @ show_int (int L) @ '': '' @ m, offset = off\<rparr>)"
    if b: "hs + 4 \<le> length buf" "0 \<le> nl" "nl \<le> 100" "L < nat nl"
      and run: "parseLayers ver buf L 0 (hs + 4) [] = Done (Success dL) cL"
      and bad: "parseLayer ver buf L cL = Done (Inl m) c'" for m c'
  proof -
    have "parseV5 ver buf = parseLayers ver buf (nat nl) 0 (hs + 4) []"
      using parseV5_layers [of ver buf] assms(1) b(1,2,3) unfolding hsz assms(4) by simp
    also have "\<dots> = Done (Failure \<lparr>message = ''Failed to parse layer '' @ show_int (int L)
                                               @ '': '' @ m, offset = c'\<rparr>) c'"
      by (rule parseLayers_refused [OF b(4) run bad])
    finally show ?thesis using parse_v5 [OF assms(1,2)] by blast
  qed
  have pC: "hs + 4 \<le> length buf \<and> 0 \<le> nl \<and> nl \<le> 100 \<and> L < nat nl \<and>
      parseLayers ver buf L 0 (hs + 4) [] = Done (Success dL) cL \<and>
      spec_stroke_count_error buf cL = Some e \<longrightarrow>
        (\<exists>off. parse buf = Some (Failure \<lparr>message = ''Failed to parse layer '' @ show_int (int L)
                                                    @ '': '' @ e,
                                         offset = off\<rparr>))"
  proof
    assume h: "hs + 4 \<le> length buf \<and> 0 \<le> nl \<and> nl \<le> 100 \<and> L < nat nl \<and>
      parseLayers ver buf L 0 (hs + 4) [] = Done (Success dL) cL \<and>
      spec_stroke_count_error buf cL = Some e"
    then obtain c' where "parseLayer ver buf L cL = Done (Inl e) c'"
      using parseLayer_count_refused [of buf cL e ver L] by blast
    with h layer_fail [of e c']
    show "\<exists>off. parse buf = Some (Failure \<lparr>message = ''Failed to parse layer '' @ show_int (int L)
                                                    @ '': '' @ e,
                                         offset = off\<rparr>)"
      by blast
  qed
  have pD: "hs + 4 \<le> length buf \<and> 0 \<le> nl \<and> nl \<le> 100 \<and> L < nat nl \<and>
      parseLayers ver buf L 0 (hs + 4) [] = Done (Success dL) cL \<and>
      spec_stroke_count_error buf cL = None \<and> i < nat (signed32 (view_bytes buf cL 4)) \<and>
      parseStrokes ver buf L i 0 (cL + 4) [] = Done (Inr ss) ci \<and>
      spec_stroke_error ver buf ci = Some e \<longrightarrow>
        (\<exists>off. parse buf = Some (Failure \<lparr>message = ''Failed to parse layer '' @ show_int (int L)
                                                    @ '': Stroke '' @ show_int (int i) @ '': '' @ e,
                                         offset = off\<rparr>))"
  proof
    assume h: "hs + 4 \<le> length buf \<and> 0 \<le> nl \<and> nl \<le> 100 \<and> L < nat nl \<and>
      parseLayers ver buf L 0 (hs + 4) [] = Done (Success dL) cL \<and>
      spec_stroke_count_error buf cL = None \<and> i < nat (signed32 (view_bytes buf cL 4)) \<and>
      parseStrokes ver buf L i 0 (cL + 4) [] = Done (Inr ss) ci \<and>
      spec_stroke_error ver buf ci = Some e"
    then obtain c' where
      "parseLayer ver buf L cL = Done (Inl (''Stroke '' @ show_int (int i) @ '': '' @ e)) c'"
      using parseLayer_stroke_refused [of buf cL i ver L ss ci e] by blast
    with h layer_fail [of "''Stroke '' @ show_int (int i) @ '': '' @ e" c']
    show "\<exists>off. parse buf = Some (Failure \<lparr>message = ''Failed to parse layer '' @ show_int (int L)
                                                    @ '': Stroke '' @ show_int (int i) @ '': '' @ e,
                                         offset = off\<rparr>)"
      by simp
  qed
  from pA pB pC pD show ?thesis by (intro conjI)
qed

theorem v5_structural_errors_witness:
  "\<exists>off. parse example_v5_truncated
           = Some (Failure \<lparr>message = ''Failed to parse layer 0: Stroke 1: Not enough bytes for 3 points'',
                            offset = off\<rparr>)"
proof -
  have v: "V5 = V3 \<or> V5 = V5" by simp
  have hv: "validateHeader example_v5_truncated
              = \<lparr>valid = True, HeaderValidation.version = V5, error = None\<rparr>"
    by code_simp
  have hs: "(43 :: nat) = (if V5 = V3 then 33 else 43)" by simp
  have nl: "(1 :: int) = signed32 (view_bytes example_v5_truncated 43 4)" by code_simp
  have h: "43 + 4 \<le> length example_v5_truncated \<and> (0 :: int) \<le> 1 \<and> (1 :: int) \<le> 100 \<and> 0 < nat 1 \<and>
      parseLayers V5 example_v5_truncated 0 0 (43 + 4) []
        = Done (Success \<lparr>ParsedDocument.version = V5, layers = []\<rparr>) 47 \<and>
      spec_stroke_count_error example_v5_truncated 47 = None \<and>
      1 < nat (signed32 (view_bytes example_v5_truncated 47 4)) \<and>
      parseStrokes V5 example_v5_truncated 0 1 0 (47 + 4) [] = Done (Inr [example_stroke_0]) 99 \<and>
      spec_stroke_error V5 example_v5_truncated 99 = Some ''Not enough bytes for 3 points''"
    by code_simp
  have m: "''Failed to parse layer '' @ show_int (int 0) @ '': Stroke '' @ show_int (int 1) @ '': ''
             @ ''Not enough bytes for 3 points''
           = ''Failed to parse layer 0: Stroke 1: Not enough bytes for 3 points''"
    by code_simp
  note t = v5_structural_errors [OF v hv hs nl,
      where L = 0 and dL = "\<lparr>ParsedDocument.version = V5, layers = []\<rparr>" and cL = 47
        and i = 1 and ss = "[example_stroke_0]" and ci = 99
        and e = "''Not enough bytes for 3 points''"]
  show ?thesis
    using t [THEN conjunct2, THEN conjunct2, THEN conjunct2, THEN mp, OF h] unfolding m .
qed

section \<open>Point records of revision 6\<close>

text \<open>
  Claim C9.  Every point record the revision-6 loop decodes is 14 bytes: x and y as
  32-bit floats (whatever the pattern: a finite value, an infinity or \<^verbatim>\<open>NaN\<close>), then
  speed and width as the raw 16-bit values divided by 65535,
  direction as the raw byte divided by 255 times 360, and pressure as the raw byte
  divided by 255.  In the example the raw values are all ones: width and speed 1,
  direction 360, pressure 1.
\<close>

theorem v6_point_normalization:
  assumes "c + 14 \<le> blockEnd" and "c + 14 \<le> length buf"
  shows "parseV6Points buf blockEnd (Suc n) c pts =
           parseV6Points buf blockEnd n (c + 14)
             (pts @ [\<lparr>Point.x = ieee_value 8 23 (view_bytes buf c 4),
                       Point.y = ieee_value 8 23 (view_bytes buf (c + 4) 4),
                       pressure = Num (real_of_int (view_bytes buf (c + 13) 1) / 255),
                       Point.width = Num (real_of_int (view_bytes buf (c + 10) 2) / 65535),
                       speed = Num (real_of_int (view_bytes buf (c + 8) 2) / 65535),
                       direction = Num ((real_of_int (view_bytes buf (c + 12) 1) / 255) * 360)\<rparr>])"
  using assms
  by (simp add: V6_POINT_SIZE_def andThen_def getFloat32_def getUint16_def getUint8_def
      add.commute)

theorem v6_point_normalization_witness:
  "parseV6Points example_point_record 14 (Suc 0) 0 [] =
     Done [\<lparr>Point.x = Num 10, Point.y = Num (- 10), pressure = Num 1, Point.width = Num 1,
             speed = Num 1, direction = Num 360\<rparr>] 14"
proof -
  have a: "0 + 14 \<le> (14 :: nat)" by simp
  have b: "0 + 14 \<le> length example_point_record" by (simp add: example_point_record_def)
  have ev: "parseV6Points example_point_record 14 0 (0 + 14)
             ([] @ [\<lparr>Point.x = ieee_value 8 23 (view_bytes example_point_record 0 4),
                       Point.y = ieee_value 8 23 (view_bytes example_point_record (0 + 4) 4),
                       pressure = Num (real_of_int (view_bytes example_point_record (0 + 13) 1) / 255),
                       Point.width = Num (real_of_int (view_bytes example_point_record (0 + 10) 2) / 65535),
                       speed = Num (real_of_int (view_bytes example_point_record (0 + 8) 2) / 65535),
                       direction = Num ((real_of_int (view_bytes example_point_record (0 + 12) 1) / 255) * 360)\<rparr>]) =
            Done [\<lparr>Point.x = Num 10, Point.y = Num (- 10), pressure = Num 1,
                    Point.width = Num 1, speed = Num 1, direction = Num 360\<rparr>] 14"
    by code_simp
  show ?thesis
    by (rule trans [OF v6_point_normalization [OF a b] ev])
qed

section \<open>Fields with an unknown index\<close>

lemma readVaruint_loop_cursor:
  "snd (readVaruint_loop buf r s c) = c + spec_varuint_size (drop c buf)"
proof (induction buf r s c rule: readVaruint_loop.induct)
  case (1 buf result shift c)
  show ?case
  proof (cases "c < length buf")
    case False
    then show ?thesis by (simp add: readVaruint_loop.simps [of buf result shift c])
  next
    case True
    then have d: "drop c buf = buf ! c # drop (Suc c) buf" by (simp add: Cons_nth_drop_Suc)
    show ?thesis
    proof (cases "buf ! c AND 0x80 = 0")
      case z: True
      with True d show ?thesis
        by (simp add: readVaruint_loop.simps [of buf result shift c] Let_def)
    next
      case nz: False
      with True d "1.IH" [OF True refl refl nz] show ?thesis
        by (simp add: readVaruint_loop.simps [of buf result shift c] Let_def)
    qed
  qed
qed

lemma readVaruint_cursor: "snd (readVaruint buf c) = c + spec_varuint_size (drop c buf)"
  using readVaruint_loop_cursor [of buf 0 0 c]
  by (simp add: readVaruint_def split_beta)

lemma skipCrdtId_cursor:
  "skipCrdtId buf c =
     c + (spec_varuint_size (drop c buf)
          + spec_varuint_size (drop (spec_varuint_size (drop c buf)) (drop c buf)))"
  by (simp add: skipCrdtId_def readVaruint_cursor add.commute)

text \<open>
  The value that \<^verbatim>\<open>readVaruint\<close> returns is the value on the wire as long as that
  value is below \<open>2\<^sup>3\<^sup>2\<close>, read as a signed 32-bit integer.
\<close>

lemma spec_varuint_value_nonneg: "0 \<le> spec_varuint_value bs"
  by (induction bs) auto

lemma data_bits_bound: "uint ((b :: byte) AND 0x7F) < 128"
proof -
  have "b AND 0x7F \<le> 0x7F" by (rule word_and_le1)
  then show ?thesis by (simp add: word_le_def)
qed

lemma septet_disjoint:
  fixes d v :: int
  assumes "0 \<le> d" "d < 128"
  shows "d * 2 ^ s + v * 2 ^ (s + 7) = d * 2 ^ s OR v * 2 ^ (s + 7)"
proof -
  have d: "take_bit 7 d = d" using assms by (simp add: take_bit_int_eq_self)
  have nb: "\<not> bit d m" if "7 \<le> m" for m
  proof -
    have "bit (take_bit 7 d) m = (m < 7 \<and> bit d m)" by (rule bit_take_bit_iff)
    with d that show ?thesis by simp
  qed
  have "push_bit s d + push_bit (s + 7) v = push_bit s d OR push_bit (s + 7) v"
  proof (rule disjunctive_add)
    fix n
    show "\<not> bit (push_bit s d) n \<or> \<not> bit (push_bit (s + 7) v) n"
      using nb [of "n - s"] by (auto simp: bit_push_bit_iff_int)
  qed
  then show ?thesis by (simp add: push_bit_eq_mult)
qed

lemma septet_shifted:
  fixes b :: byte
  assumes "uint (b AND 0x7F) * 2 ^ s < 2 ^ 32"
  shows "(push_bit (s mod 32) (ucast (b AND 0x7F)) :: 32 word) = word_of_int (uint (b AND 0x7F) * 2 ^ s)"
proof (cases "s < 32")
  case True
  have "(push_bit s (ucast (b AND 0x7F)) :: 32 word) = word_of_int (uint (b AND 0x7F)) * 2 ^ s"
    by (simp only: push_bit_eq_mult ucast_eq)
  also have "\<dots> = word_of_int (uint (b AND 0x7F) * 2 ^ s)"
    by (simp only: of_int_mult of_int_power of_int_numeral)
  finally show ?thesis using True by simp
next
  case False
  then have "(2 :: int) ^ 32 \<le> 2 ^ s" by (intro power_increasing) simp_all
  with assms have "uint (b AND 0x7F) * 2 ^ s < 1 * 2 ^ s" by linarith
  then have "uint (b AND 0x7F) < 1" by (simp only: mult_less_cancel_right) simp
  moreover have "0 \<le> uint (b AND 0x7F)" by simp
  ultimately have "uint (b AND 0x7F) = 0" by linarith
  then have z: "b AND 0x7F = 0" by (simp only: uint_0_iff)
  show ?thesis by (simp add: z)
qed

lemma readVaruint_loop_value:
  "spec_varuint_value (drop c buf) * 2 ^ s < 2 ^ 32 \<Longrightarrow>
   fst (readVaruint_loop buf r s c) = r OR word_of_int (spec_varuint_value (drop c buf) * 2 ^ s)"
proof (induction buf r s c rule: readVaruint_loop.induct)
  case (1 buf result shift c)
  show ?case
  proof (cases "c < length buf")
    case False
    then show ?thesis by (simp add: readVaruint_loop.simps [of buf result shift c])
  next
    case True
    then have d: "drop c buf = buf ! c # drop (Suc c) buf" by (simp add: Cons_nth_drop_Suc)
    let ?d = "uint (buf ! c AND 0x7F)"
    let ?P = "push_bit (shift mod 32) (ucast (buf ! c AND 0x7F)) :: 32 word"
    have d0: "0 \<le> ?d" by simp
    have d1: "?d < 128" by (rule data_bits_bound)
    show ?thesis
    proof (cases "buf ! c AND 0x80 = 0")
      case z: True
      with "1.prems" d have "?d * 2 ^ shift < 2 ^ 32" by simp
      then have "?P = word_of_int (?d * 2 ^ shift)" by (rule septet_shifted)
      with True d z show ?thesis
        by (simp add: readVaruint_loop.simps [of buf result shift c] Let_def)
    next
      case nz: False
      let ?v = "spec_varuint_value (drop (Suc c) buf)"
      have v0: "0 \<le> ?v" by (rule spec_varuint_value_nonneg)
      have total: "(?d + 128 * ?v) * 2 ^ shift < 2 ^ 32" using "1.prems" d nz by simp
      have split: "(?d + 128 * ?v) * 2 ^ shift = ?d * 2 ^ shift + ?v * 2 ^ (shift + 7)"
        by (simp add: algebra_simps power_add)
      have a: "?d * 2 ^ shift < 2 ^ 32" and b: "?v * 2 ^ (shift + 7) < 2 ^ 32"
        using total split d0 v0 by (smt (verit) mult_nonneg_nonneg zero_le_power)+
      have P: "?P = word_of_int (?d * 2 ^ shift)" using a by (rule septet_shifted)
      have ih: "fst (readVaruint_loop buf (result OR ?P) (shift + 7) (c + 1))
                  = (result OR ?P) OR word_of_int (?v * 2 ^ (shift + 7))"
        using "1.IH" [OF True refl refl nz] b by simp
      have "word_of_int (?d * 2 ^ shift) OR word_of_int (?v * 2 ^ (shift + 7))
              = (word_of_int ((?d + 128 * ?v) * 2 ^ shift) :: 32 word)"
        by (simp only: split septet_disjoint [OF d0 d1] of_int_or_eq)
      with ih P have "fst (readVaruint_loop buf (result OR ?P) (shift + 7) (c + 1))
                  = result OR word_of_int ((?d + 128 * ?v) * 2 ^ shift)"
        by (simp add: or.assoc)
      with True d nz show ?thesis
        by (simp add: readVaruint_loop.simps [of buf result shift c] Let_def)
    qed
  qed
qed

lemma sint_32: "0 \<le> v \<Longrightarrow> v < 2 ^ 32 \<Longrightarrow> sint (word_of_int v :: 32 word) = signed32 v"
proof -
  assume a: "0 \<le> v" "v < 2 ^ 32"
  have s: "sint (word_of_int v :: 32 word) = (v + 2147483648) mod 4294967296 - 2147483648"
    by (simp add: int_word_sint)
  show ?thesis
  proof (cases "v < 2147483648")
    case True
    with a have "(v + 2147483648) mod 4294967296 = v + 2147483648" by simp
    with s True show ?thesis by (simp add: signed32_def)
  next
    case False
    with a have "(v + 2147483648) mod 4294967296 = v + 2147483648 - 4294967296"
      by (simp add: mod_pos_geq)
    with s False show ?thesis by (simp add: signed32_def)
  qed
qed

lemma readVaruint_value:
  assumes "spec_varuint_value (drop c buf) < 2 ^ 32"
  shows "fst (readVaruint buf c) = signed32 (spec_varuint_value (drop c buf))"
  using readVaruint_loop_value [of c buf 0 0] assms sint_32 [OF spec_varuint_value_nonneg, of "drop c buf"]
  by (simp add: readVaruint_def split_beta)

text \<open>
  The switch on a tag that \<^verbatim>\<open>readVaruint\<close> has returned with an index outside 1 to 7.
\<close>

lemma unknown_field_step:
  assumes "readVaruint buf c = (tag, c1)"
    and "tag div 16 \<notin> {1, 2, 3, 4, 5, 6, 7}"
    and "spec_payload_size (tag mod 16) (drop c1 buf) = Some n"
  shows "c1 = c + spec_varuint_size (drop c buf) \<and>
         parseV6Stroke_step buf blockEnd L c = Done L (c1 + n) \<and>
         (c < blockEnd \<and> c < length buf \<longrightarrow>
            parseV6Stroke_loop buf blockEnd L c = parseV6Stroke_loop buf blockEnd L (c1 + n))"
proof -
  have c1: "c1 = c + spec_varuint_size (drop c buf)"
    using assms(1) readVaruint_cursor [of buf c] by simp
  have idx: "tag div 16 \<noteq> 1" "tag div 16 \<noteq> 2" "tag div 16 \<noteq> 3" "tag div 16 \<noteq> 4"
    "tag div 16 \<noteq> 5" "\<not> (tag div 16 = 6 \<or> tag div 16 = 7)"
    using assms(2) by simp_all
  have field: "parseV6Field buf blockEnd (tag div 16) (tag mod 16) L c1 = Done L (c1 + n)"
  proof -
    consider (b1) "tag mod 16 = TAG_Byte1" | (b4) "tag mod 16 = TAG_Byte4"
      | (b8) "tag mod 16 = TAG_Byte8" | (len) "tag mod 16 = TAG_Length4"
      | (ident) "tag mod 16 = TAG_ID"
      using assms(3) by (auto simp: spec_payload_size_def split: if_splits)
    then show ?thesis
    proof cases
      case b1
      with assms(3) show ?thesis
        unfolding parseV6Field_def using idx
        by (simp add: spec_payload_size_def)
    next
      case b4
      with assms(3) show ?thesis
        unfolding parseV6Field_def using idx
        by (simp add: spec_payload_size_def TAG_Byte1_def TAG_Byte4_def)
    next
      case b8
      with assms(3) show ?thesis
        unfolding parseV6Field_def using idx
        by (simp add: spec_payload_size_def TAG_Byte1_def TAG_Byte4_def TAG_Byte8_def)
    next
      case len
      with assms(3) have l4: "c1 + 4 \<le> length buf" and n: "n = 4 + nat (view_bytes buf c1 4)"
        by (auto simp: spec_payload_size_def view_bytes_def TAG_Byte1_def TAG_Byte4_def
            TAG_Byte8_def TAG_Length4_def split: if_splits)
      with len show ?thesis
        unfolding parseV6Field_def using idx
        by (simp add: TAG_Byte1_def TAG_Byte4_def TAG_Byte8_def TAG_Length4_def
            andThen_def getUint32_def)
    next
      case ident
      with assms(3) have "n = spec_varuint_size (drop c1 buf)
            + spec_varuint_size (drop (spec_varuint_size (drop c1 buf)) (drop c1 buf))"
        by (simp add: spec_payload_size_def TAG_Byte1_def TAG_Byte4_def TAG_Byte8_def
            TAG_Length4_def TAG_ID_def)
      with ident show ?thesis
        unfolding parseV6Field_def using idx
        by (simp add: TAG_Byte1_def TAG_Byte4_def TAG_Byte8_def TAG_Length4_def TAG_ID_def
            skipCrdtId_cursor)
    qed
  qed
  have step: "parseV6Stroke_step buf blockEnd L c = Done L (c1 + n)"
    by (simp add: parseV6Stroke_step_def assms(1) field)
  have loop: "c < blockEnd \<and> c < length buf \<longrightarrow>
            parseV6Stroke_loop buf blockEnd L c = parseV6Stroke_loop buf blockEnd L (c1 + n)"
    by (simp add: parseV6Stroke_loop.simps [of buf blockEnd L c] step)
  from c1 step loop show ?thesis by blast
qed

text \<open>
  Claim C2, as the code has it.  Inside a line-definition block, a field whose tag on the wire is
  below \<open>2\<^sup>3\<^sup>2\<close> and whose index (the tag without its four low bits) is none of 1 to 7
  is consumed according to its wire type alone: the tag varuint, then 1, 4 or 8 bytes, or
  a 32-bit length and that many bytes, or two varuints.  The locals are unchanged and the
  loop goes on exactly at the first byte after the field.
\<close>

theorem unknown_field_consumed:
  assumes "spec_varuint_value (drop c buf) = tag"
    and "tag < 2 ^ 32"
    and "tag div 16 \<notin> {1, 2, 3, 4, 5, 6, 7}"
    and "c1 = c + spec_varuint_size (drop c buf)"
    and "spec_payload_size (tag mod 16) (drop c1 buf) = Some n"
  shows "parseV6Stroke_step buf blockEnd L c = Done L (c1 + n) \<and>
         (c < blockEnd \<and> c < length buf \<longrightarrow>
            parseV6Stroke_loop buf blockEnd L c = parseV6Stroke_loop buf blockEnd L (c1 + n))"
proof -
  have nonneg: "0 \<le> tag" using assms(1) spec_varuint_value_nonneg [of "drop c buf"] by simp
  have r: "readVaruint buf c = (signed32 tag, c1)"
    using readVaruint_value [of c buf] readVaruint_cursor [of buf c] assms(1,2,4)
    by (cases "readVaruint buf c") simp
  have m: "signed32 tag mod 16 = tag mod 16"
  proof (cases "tag < 2 ^ 31")
    case True
    then show ?thesis by (simp add: signed32_def)
  next
    case False
    have "(tag + (- 268435456) * 16) mod 16 = tag mod 16" by (rule mod_mult_self1)
    then have "(tag - 4294967296) mod 16 = tag mod 16" by simp
    with False show ?thesis by (simp add: signed32_def)
  qed
  have i: "signed32 tag div 16 \<notin> {1, 2, 3, 4, 5, 6, 7}"
  proof (cases "tag < 2 ^ 31")
    case True
    with assms(3) show ?thesis by (simp add: signed32_def)
  next
    case False
    have "tag - 4294967296 < 0" using assms(2) by simp
    then have "(tag - 4294967296) div 16 < 0" by (simp add: div_neg_pos_less0)
    with False show ?thesis by (simp add: signed32_def)
  qed
  from assms(5) m have p: "spec_payload_size (signed32 tag mod 16) (drop c1 buf) = Some n" by simp
  from unknown_field_step [OF r i p, of blockEnd L] show ?thesis by simp
qed

theorem unknown_field_consumed_witness:
  "parseV6Stroke_step example_unknown_fields 24
      \<lparr>l_pen = 0, l_color = 0, l_thickness = Num 1, l_points = []\<rparr> 0
     = Done \<lparr>l_pen = 0, l_color = 0, l_thickness = Num 1, l_points = []\<rparr> 6 \<and>
   parseV6Stroke_step example_unknown_fields 24
      \<lparr>l_pen = 0, l_color = 0, l_thickness = Num 1, l_points = []\<rparr> 6
     = Done \<lparr>l_pen = 0, l_color = 0, l_thickness = Num 1, l_points = []\<rparr> 14 \<and>
   parseV6Stroke_step example_unknown_fields 24
      \<lparr>l_pen = 0, l_color = 0, l_thickness = Num 1, l_points = []\<rparr> 14
     = Done \<lparr>l_pen = 0, l_color = 0, l_thickness = Num 1, l_points = []\<rparr> 19 \<and>
   parseV6Stroke_loop example_unknown_fields 24
      \<lparr>l_pen = 0, l_color = 0, l_thickness = Num 1, l_points = []\<rparr> 0
     = Done \<lparr>l_pen = 3, l_color = 0, l_thickness = Num 1, l_points = []\<rparr> 24"
proof -
  let ?L = "\<lparr>l_pen = 0, l_color = 0, l_thickness = Num 1, l_points = []\<rparr>"
  have r0: "spec_varuint_value (drop 0 example_unknown_fields) = 148" by code_simp
  have b0: "(148 :: int) < 2 ^ 32" by simp
  have i0: "(148 :: int) div 16 \<notin> {1, 2, 3, 4, 5, 6, 7}" by simp
  have s0: "2 = 0 + spec_varuint_size (drop 0 example_unknown_fields)" by code_simp
  have p0: "spec_payload_size (148 mod 16) (drop 2 example_unknown_fields) = Some 4" by code_simp
  have r1: "spec_varuint_value (drop 6 example_unknown_fields) = 156" by code_simp
  have b1: "(156 :: int) < 2 ^ 32" by simp
  have i1: "(156 :: int) div 16 \<notin> {1, 2, 3, 4, 5, 6, 7}" by simp
  have s1: "8 = 6 + spec_varuint_size (drop 6 example_unknown_fields)" by code_simp
  have p1: "spec_payload_size (156 mod 16) (drop 8 example_unknown_fields) = Some 6" by code_simp
  have r2: "spec_varuint_value (drop 14 example_unknown_fields) = 159" by code_simp
  have b2: "(159 :: int) < 2 ^ 32" by simp
  have i2: "(159 :: int) div 16 \<notin> {1, 2, 3, 4, 5, 6, 7}" by simp
  have s2: "16 = 14 + spec_varuint_size (drop 14 example_unknown_fields)" by code_simp
  have p2: "spec_payload_size (159 mod 16) (drop 16 example_unknown_fields) = Some 3" by code_simp
  note u0 = unknown_field_consumed [OF r0 b0 i0 s0 p0, of 24 ?L]
  note u1 = unknown_field_consumed [OF r1 b1 i1 s1 p1, of 24 ?L]
  note u2 = unknown_field_consumed [OF r2 b2 i2 s2 p2, of 24 ?L]
  have len: "length example_unknown_fields = 24" by (simp add: example_unknown_fields_def)
  have l0: "parseV6Stroke_loop example_unknown_fields 24 ?L 0
              = parseV6Stroke_loop example_unknown_fields 24 ?L 6"
    using u0 len by simp
  have l1: "parseV6Stroke_loop example_unknown_fields 24 ?L 6
              = parseV6Stroke_loop example_unknown_fields 24 ?L 14"
    using u1 len by simp
  have l2: "parseV6Stroke_loop example_unknown_fields 24 ?L 14
              = parseV6Stroke_loop example_unknown_fields 24 ?L 19"
    using u2 len by simp
  have l3: "parseV6Stroke_loop example_unknown_fields 24 ?L 19
              = Done \<lparr>l_pen = 3, l_color = 0, l_thickness = Num 1, l_points = []\<rparr> 24"
    by code_simp
  show ?thesis
    using u0 u1 u2 l0 l1 l2 l3 by simp
qed

text \<open>
  The claim as the specification words it, for every field with an unknown index, fails
  on a tag of \<open>2\<^sup>3\<^sup>2\<close> or more.  The five bytes \<^verbatim>\<open>98 80 80 80 10\<close> are the varuint
  \<open>2\<^sup>3\<^sup>2 + 24\<close>: index \<open>2\<^sup>2\<^sup>8 + 1\<close>, wire type \<^verbatim>\<open>Byte8\<close>, so the field is these five bytes
  and eight bytes of payload, 13 in all.  \<^verbatim>\<open>readVaruint\<close> keeps 32 bits and returns 24,
  which is index 1 with wire type \<^verbatim>\<open>Byte8\<close>; \<^verbatim>\<open>case 1\<close> consumes nothing for that type,
  and the loop goes on at byte 5, inside the payload, where it finds a colour that the
  stroke does not have: read from byte 13, behind the field, the stroke has pen 3 and
  colour 0; the decoder returns pen 3 and colour 5, also for the whole file made of the
  header, this block with a point record behind it, and nothing else.
\<close>

theorem unknown_field_consumed_counterexample:
  "spec_varuint_value (drop 0 example_wide_tag) = 4294967320 \<and>
   (4294967320 :: int) div 16 = 268435457 \<and>
   0 + spec_varuint_size (drop 0 example_wide_tag) = 5 \<and>
   spec_payload_size (4294967320 mod 16) (drop 5 example_wide_tag) = Some 8 \<and>
   readVaruint example_wide_tag 0 = (24, 5) \<and>
   parseV6Stroke_step example_wide_tag 18
      \<lparr>l_pen = 0, l_color = 0, l_thickness = Num 1, l_points = []\<rparr> 0
     = Done \<lparr>l_pen = 0, l_color = 0, l_thickness = Num 1, l_points = []\<rparr> 5 \<and>
   parseV6Stroke_loop example_wide_tag 18
      \<lparr>l_pen = 0, l_color = 0, l_thickness = Num 1, l_points = []\<rparr> 0
     = Done \<lparr>l_pen = 3, l_color = 5, l_thickness = Num 1, l_points = []\<rparr> 18 \<and>
   parseV6Stroke_loop example_wide_tag 18
      \<lparr>l_pen = 0, l_color = 0, l_thickness = Num 1, l_points = []\<rparr> 13
     = Done \<lparr>l_pen = 3, l_color = 0, l_thickness = Num 1, l_points = []\<rparr> 18 \<and>
   parse (example_header_v6 @ [37, 0, 0, 0, 0, 2, 2, 5] @ example_wide_tag
            @ [0x5C, 14, 0, 0, 0] @ example_point_record)
     = Some (Success \<lparr>ParsedDocument.version = V6,
                      layers = [[example_stroke_A\<lparr>pen := 3, color := 5\<rparr>]]\<rparr>)"
  by code_simp
section \<open>The block scan of revision 6\<close>

lemma parseV6_step_rejected:
  assumes "c + 8 \<le> length buf" and "spec_block_rejected buf c"
  shows "parseV6_step buf strokes c = Done strokes (c + 1)"
  using assms
  by (auto simp: parseV6_step_def spec_block_rejected_def andThen_def getUint32_def Let_def)

lemma parseV6_loop_rejected:
  assumes "c + 8 \<le> length buf" and "spec_block_rejected buf c"
  shows "parseV6_loop buf strokes c = parseV6_loop buf strokes (c + 1)"
  using assms by (simp add: parseV6_loop.simps [of buf strokes c] parseV6_step_rejected)

lemma parseV6_loop_rejected_run:
  "(\<forall>i < n. c + i + 8 \<le> length buf \<and> spec_block_rejected buf (c + i)) \<Longrightarrow>
     parseV6_loop buf strokes c = parseV6_loop buf strokes (c + n)"
proof (induction n)
  case 0
  show ?case by simp
next
  case (Suc n)
  then have "parseV6_loop buf strokes c = parseV6_loop buf strokes (c + n)" by simp
  also have "\<dots> = parseV6_loop buf strokes (c + n + 1)"
    using Suc.prems by (intro parseV6_loop_rejected) simp_all
  finally show ?case by simp
qed

lemma andThen_not_Diverges:
  "m \<noteq> Diverges \<Longrightarrow> (\<And>a c. f a c \<noteq> Diverges) \<Longrightarrow> andThen m f \<noteq> Diverges"
  by (cases m) (simp_all add: andThen_def)

lemma get_not_Diverges:
  "getUint8 buf c \<noteq> Diverges" "getUint16 buf c \<noteq> Diverges" "getUint32 buf c \<noteq> Diverges"
  "getInt32 buf c \<noteq> Diverges" "getFloat32 buf c \<noteq> Diverges" "getFloat64 buf c \<noteq> Diverges"
  by (simp_all add: getUint8_def getUint16_def getUint32_def getInt32_def getFloat32_def
      getFloat64_def)

lemma parseV6Points_not_Diverges: "parseV6Points buf blockEnd n c pts \<noteq> Diverges"
  by (induction n arbitrary: c pts) (simp_all add: andThen_not_Diverges get_not_Diverges)

lemma if_not_Diverges:
  "a \<noteq> Diverges \<Longrightarrow> b \<noteq> Diverges \<Longrightarrow> (if q then a else b) \<noteq> Diverges"
  by simp

lemma parseV6Field_not_Diverges: "parseV6Field buf blockEnd index wtype L c \<noteq> Diverges"
  unfolding parseV6Field_def
  by (intro if_not_Diverges andThen_not_Diverges get_not_Diverges parseV6Points_not_Diverges)
     simp_all

lemma parseV6Stroke_step_not_Diverges: "parseV6Stroke_step buf blockEnd L c \<noteq> Diverges"
  by (simp add: parseV6Stroke_step_def split_beta parseV6Field_not_Diverges)

lemma parseV6Stroke_loop_returns:
  "blockEnd \<le> length buf \<Longrightarrow> parseV6Stroke_loop buf blockEnd L c \<noteq> Diverges"
proof (induction buf blockEnd L c rule: parseV6Stroke_loop.induct)
  case (1 buf blockEnd L c)
  show ?case
  proof (cases "c < blockEnd")
    case False
    then show ?thesis by (simp add: parseV6Stroke_loop.simps [of buf blockEnd L c])
  next
    case True
    with "1.prems" have nb: "\<not> length buf \<le> c" by simp
    show ?thesis
    proof (cases "parseV6Stroke_step buf blockEnd L c")
      case (Done L' c')
      with True nb "1.IH" [OF True nb Done "1.prems"] show ?thesis
        by (simp add: parseV6Stroke_loop.simps [of buf blockEnd L c])
    next
      case (Thrown c')
      with True nb show ?thesis by (simp add: parseV6Stroke_loop.simps [of buf blockEnd L c])
    next
      case Diverges
      with parseV6Stroke_step_not_Diverges show ?thesis by blast
    qed
  qed
qed

lemma parseV6Stroke_returns:
  "blockEnd \<le> length buf \<Longrightarrow> \<exists>r c'. parseV6Stroke buf blockEnd c = Done r c'"
  using parseV6Stroke_loop_returns [of blockEnd buf "\<lparr>l_pen = 0, l_color = 0, l_thickness = Num 1, l_points = []\<rparr>" c]
  by (cases "parseV6Stroke_loop buf blockEnd \<lparr>l_pen = 0, l_color = 0, l_thickness = Num 1, l_points = []\<rparr> c")
     (simp_all add: parseV6Stroke_def)

lemma parseV6_step_returns:
  assumes "c + 8 \<le> length buf"
  shows "\<exists>strokes' c'. parseV6_step buf strokes c = Done strokes' c' \<and> prefix strokes strokes'"
proof -
  let ?len = "view_bytes buf c 4" and ?flag = "view_bytes buf (c + 4) 4"
  show ?thesis
  proof (cases "spec_block_rejected buf c")
    case True
    from parseV6_step_rejected [OF assms True] show ?thesis by simp
  next
    case False
    then have ok: "?len \<noteq> 0" "\<not> ?len > int (length buf) - int (c + 8)" "\<not> ?len > 10000000"
      by (simp_all add: spec_block_rejected_def)
    show ?thesis
    proof (cases "?flag = LINE_DEF")
      case nl: False
      with ok assms show ?thesis
        by (simp add: parseV6_step_def andThen_def getUint32_def Let_def add.commute)
    next
      case True
      have be: "c + 8 + nat ?len \<le> length buf" using ok assms by linarith
      from parseV6Stroke_returns [OF be, of "c + 8"]
      obtain r c' where r: "parseV6Stroke buf (c + 8 + nat ?len) (c + 8) = Done r c'" by blast
      have "parseV6_step buf strokes c =
              Done (case r of Inr stroke \<Rightarrow> if Stroke.points stroke \<noteq> [] then strokes @ [stroke] else strokes
                    | Inl _ \<Rightarrow> strokes) (c + 8 + nat ?len)"
        using ok assms True r
        by (simp add: parseV6_step_def andThen_def getUint32_def Let_def add.commute add.left_commute)
      then show ?thesis by (cases r) auto
    qed
  qed
qed

lemma parseV6_loop_returns:
  "\<exists>strokes' c'. parseV6_loop buf strokes c = Done strokes' c' \<and> prefix strokes strokes'"
proof (induction buf strokes c rule: parseV6_loop.induct)
  case (1 buf strokes c)
  show ?case
  proof (cases "c + 8 \<le> length buf")
    case False
    then show ?thesis by (simp add: parseV6_loop.simps [of buf strokes c])
  next
    case True
    from parseV6_step_returns [OF True, of strokes]
    obtain s1 c1 where st: "parseV6_step buf strokes c = Done s1 c1" and p1: "prefix strokes s1"
      by blast
    from "1.IH" [OF True st]
    obtain s2 c2 where l: "parseV6_loop buf s1 c1 = Done s2 c2" and p2: "prefix s1 s2" by blast
    have "parseV6_loop buf strokes c = Done s2 c2"
      using True st l by (simp add: parseV6_loop.simps [of buf strokes c])
    moreover have "prefix strokes s2" using p1 p2 by (rule prefix_order.trans)
    ultimately show ?thesis by blast
  qed
qed

text \<open>
  Claim C4, as the code has it.  A length field that is zero, larger than the rest of
  the buffer or larger than 10,000,000 is never fatal: the scan goes on one byte behind
  the start of that block, with the strokes decoded so far.  The scan always returns,
  the strokes it had are a prefix of the strokes it returns, and \<^verbatim>\<open>parseV6\<close> always
  succeeds.  When every position from the rejected header up to some later position is
  rejected as well, the scan resumes exactly there; this is when the blocks behind a
  corrupted length field are found again.
\<close>

theorem v6_resynchronization:
  "(c + 8 \<le> length buf \<and> spec_block_rejected buf c \<longrightarrow>
      parseV6_step buf strokes c = Done strokes (c + 1) \<and>
      parseV6_loop buf strokes c = parseV6_loop buf strokes (c + 1)) \<and>
   ((\<forall>i < n. c + i + 8 \<le> length buf \<and> spec_block_rejected buf (c + i)) \<longrightarrow>
      parseV6_loop buf strokes c = parseV6_loop buf strokes (c + n)) \<and>
   (\<exists>strokes' c'. parseV6_loop buf strokes c = Done strokes' c' \<and> prefix strokes strokes') \<and>
   (\<exists>strokes' c'. parseV6 ver buf = Done (Success \<lparr>ParsedDocument.version = ver, layers = [strokes']\<rparr>) c')"
proof (intro conjI impI)
  assume h: "c + 8 \<le> length buf \<and> spec_block_rejected buf c"
  then show "parseV6_step buf strokes c = Done strokes (c + 1)"
    by (simp add: parseV6_step_rejected)
  from h show "parseV6_loop buf strokes c = parseV6_loop buf strokes (c + 1)"
    by (simp add: parseV6_loop_rejected)
next
  assume "\<forall>i < n. c + i + 8 \<le> length buf \<and> spec_block_rejected buf (c + i)"
  then show "parseV6_loop buf strokes c = parseV6_loop buf strokes (c + n)"
    by (rule parseV6_loop_rejected_run)
next
  show "\<exists>strokes' c'. parseV6_loop buf strokes c = Done strokes' c' \<and> prefix strokes strokes'"
    by (rule parseV6_loop_returns)
next
  from parseV6_loop_returns [of buf "[]" V6_HEADER_SIZE]
  obtain s c' where "parseV6_loop buf [] V6_HEADER_SIZE = Done s c'" by blast
  then show "\<exists>strokes' c'. parseV6 ver buf = Done (Success \<lparr>ParsedDocument.version = ver, layers = [strokes']\<rparr>) c'"
    by (simp add: parseV6_def)
qed

text \<open>
  The example of the specification: the length field of the middle block is set to 0, and
  the strokes of the blocks before and behind it are both decoded.
\<close>

theorem v6_resynchronization_witness:
  "parseV6_loop (example_header_v6 @ example_line_block_A @ example_small_block[0 := 0]
                   @ example_line_block_B) [example_stroke_A] 70
     = Done [example_stroke_A, example_stroke_B] 114 \<and>
   parse (example_header_v6 @ example_line_block_A @ example_small_block[0 := 0]
            @ example_line_block_B)
     = Some (Success \<lparr>ParsedDocument.version = V6, layers = [[example_stroke_A, example_stroke_B]]\<rparr>)"
proof -
  let ?buf = "example_header_v6 @ example_line_block_A @ example_small_block[0 := 0]
                @ example_line_block_B"
  have "\<forall>i \<in> set [0..<8]. 70 + i + 8 \<le> length ?buf \<and> spec_block_rejected ?buf (70 + i)"
    by code_simp
  then have rej: "\<forall>i < 8. 70 + i + 8 \<le> length ?buf \<and> spec_block_rejected ?buf (70 + i)"
    by simp
  from v6_resynchronization [of 70 ?buf "[example_stroke_A]" 8 V6]
  have "(\<forall>i < 8. 70 + i + 8 \<le> length ?buf \<and> spec_block_rejected ?buf (70 + i)) \<longrightarrow>
          parseV6_loop ?buf [example_stroke_A] 70 = parseV6_loop ?buf [example_stroke_A] (70 + 8)"
    by blast
  with rej have "parseV6_loop ?buf [example_stroke_A] 70 = parseV6_loop ?buf [example_stroke_A] (70 + 8)"
    by blast
  also have "parseV6_loop ?buf [example_stroke_A] (70 + 8) = Done [example_stroke_A, example_stroke_B] 114"
    by code_simp
  finally have a: "parseV6_loop ?buf [example_stroke_A] 70 = Done [example_stroke_A, example_stroke_B] 114" .
  have b: "parse ?buf = Some (Success \<lparr>ParsedDocument.version = V6,
                                         layers = [[example_stroke_A, example_stroke_B]]\<rparr>)"
    by code_simp
  from a b show ?thesis by simp
qed

text \<open>
  The blocks behind a corrupted length field are not always found again.  Here the
  payload of the corrupted block, read as a block header, declares 4 bytes of an
  unknown type.  These 4 bytes are the length field of the next block, a valid line
  definition: the scan goes on inside its header, and its stroke is lost.
\<close>

theorem v6_resynchronization_counterexample:
  "parse (example_header_v6 @ example_other_block @ example_line_block_B)
     = Some (Success \<lparr>ParsedDocument.version = V6, layers = [[example_stroke_B]]\<rparr>) \<and>
   parse (example_header_v6 @ example_other_block[0 := 0] @ example_line_block_B)
     = Some (Success \<lparr>ParsedDocument.version = V6, layers = [[]]\<rparr>)"
  by code_simp

section \<open>The bounding box of a converted stroke\<close>

lemma num_le_Num: "num_le (Num a) (Num b) = (a \<le> b)"
  by (auto simp: num_le_def)

lemma finite_number_Num: "finite_number v \<Longrightarrow> \<exists>r. v = Num r"
  by (cases v) simp_all

lemma finite_numbers_Num: "\<forall>v \<in> set vs. finite_number v \<Longrightarrow> \<exists>rs. vs = map Num rs"
proof (induction vs)
  case Nil
  show ?case by simp
next
  case (Cons v vs)
  then obtain rs where "vs = map Num rs" by auto
  moreover from Cons.prems obtain r where "v = Num r" using finite_number_Num [of v] by auto
  ultimately have "v # vs = map Num (r # rs)" by simp
  then show ?case by (rule exI [of _ "r # rs"])
qed

lemma fold_lower_Num: "fold lower (map Num rs) (Num a) = Num (fold min rs a)"
  by (induction rs arbitrary: a) (simp_all add: lower_def min_def not_less)

lemma fold_higher_Num: "fold higher (map Num rs) (Num a) = Num (fold max rs a)"
  by (induction rs arbitrary: a) (simp_all add: higher_def max_def not_less)

lemma Math_min_Num: "rs \<noteq> [] \<Longrightarrow> Math_min (map Num rs) = Num (Min (set rs))"
proof (cases rs)
  case Nil
  assume "rs \<noteq> []"
  with Nil show ?thesis by simp
next
  case (Cons a list)
  have "Min (set (a # list)) = fold min list a" by (rule Min.set_eq_fold)
  with Cons show ?thesis by (simp add: Math_min_def lower_def fold_lower_Num)
qed

lemma Math_max_Num: "rs \<noteq> [] \<Longrightarrow> Math_max (map Num rs) = Num (Max (set rs))"
proof (cases rs)
  case Nil
  assume "rs \<noteq> []"
  with Nil show ?thesis by simp
next
  case (Cons a list)
  have "Max (set (a # list)) = fold max list a" by (rule Max.set_eq_fold)
  with Cons show ?thesis by (simp add: Math_max_def higher_def fold_higher_Num)
qed

lemma Math_min_least:
  assumes "vs \<noteq> []" and "\<forall>v \<in> set vs. finite_number v"
  shows "is_least (Math_min vs) vs"
proof -
  from finite_numbers_Num [OF assms(2)] obtain rs where vs: "vs = map Num rs" by blast
  with assms(1) have ne: "rs \<noteq> []" by simp
  have "Min (set rs) \<in> set rs" using ne by (intro Min_in) simp_all
  moreover have "\<forall>r \<in> set rs. Min (set rs) \<le> r" by simp
  ultimately show ?thesis
    unfolding vs Math_min_Num [OF ne] is_least_def by (simp add: num_le_Num)
qed

lemma Math_max_greatest:
  assumes "vs \<noteq> []" and "\<forall>v \<in> set vs. finite_number v"
  shows "is_greatest (Math_max vs) vs"
proof -
  from finite_numbers_Num [OF assms(2)] obtain rs where vs: "vs = map Num rs" by blast
  with assms(1) have ne: "rs \<noteq> []" by simp
  have "Max (set rs) \<in> set rs" using ne by (intro Max_in) simp_all
  moreover have "\<forall>r \<in> set rs. r \<le> Max (set rs)" by simp
  ultimately show ?thesis
    unfolding vs Math_max_Num [OF ne] is_greatest_def by (simp add: num_le_Num)
qed

lemma least_shift:
  assumes "\<forall>p \<in> set ps. finite_number (f p)" and "is_least m (map f ps)"
  shows "is_least (Num 0) (map (\<lambda>p. num_minus (f p) m) ps)"
proof -
  from assms(2) obtain p0 where p0: "p0 \<in> set ps" "m = f p0"
    and le: "\<forall>p \<in> set ps. num_le m (f p)"
    by (auto simp: is_least_def)
  from assms(1) p0 obtain a where a: "m = Num a" using finite_number_Num [of "f p0"] by auto
  from p0(2) a have "f p0 = Num a" by simp
  then have "num_minus (f p0) m = Num 0" by (simp add: a)
  with p0(1) have here: "Num 0 \<in> set (map (\<lambda>p. num_minus (f p) m) ps)" by force
  have "num_le (Num 0) (num_minus (f p) m)" if "p \<in> set ps" for p
  proof -
    from assms(1) that obtain r where r: "f p = Num r" using finite_number_Num [of "f p"] by auto
    from le that have "num_le m (f p)" by simp
    with a r show ?thesis by (simp add: num_le_Num)
  qed
  with here show ?thesis by (simp add: is_least_def)
qed

lemma convertStroke_element:
  assumes "Stroke.points stroke \<noteq> []" and "length (Stroke.points stroke) \<le> maxArgs"
  shows "\<exists>e k'. convertStroke maxArgs conv sv stroke layer k = Returns (Some e, k') \<and>
           x e = Math_min (map Point.x (Stroke.points stroke)) \<and>
           y e = Math_min (map Point.y (Stroke.points stroke)) \<and>
           width e = num_minus (Math_max (map Point.x (Stroke.points stroke)))
                       (Math_min (map Point.x (Stroke.points stroke))) \<and>
           height e = num_minus (Math_max (map Point.y (Stroke.points stroke)))
                        (Math_min (map Point.y (Stroke.points stroke))) \<and>
           points e = map (\<lambda>pt. [num_minus (Point.x pt) (Math_min (map Point.x (Stroke.points stroke))),
                                   num_minus (Point.y pt) (Math_min (map Point.y (Stroke.points stroke)))])
                        (Stroke.points stroke)"
  using assms
  by (simp add: convertStroke_def spread_call_def Let_def Date_now_def generateId_def
      generateSeed_def o_def)

text \<open>
  Claim C6, as the code has it.  A stroke with at least one point, with no more points than the
  engine takes as arguments and with finite coordinates, gives a freehand element placed
  at the least x and the least y of its points, as wide and as high as the extent of the
  points; every output point is the raw point minus that corner, so the least relative x
  and the least relative y are 0.
\<close>

theorem bounding_box_translation:
  assumes "Stroke.points stroke \<noteq> []"
    and "length (Stroke.points stroke) \<le> maxArgs"
    and "\<forall>p \<in> set (Stroke.points stroke). finite_number (Point.x p) \<and> finite_number (Point.y p)"
  shows "\<exists>e k' maxX maxY.
           convertStroke maxArgs conv sv stroke layer k = Returns (Some e, k') \<and>
           is_least (x e) (map Point.x (Stroke.points stroke)) \<and>
           is_least (y e) (map Point.y (Stroke.points stroke)) \<and>
           is_greatest maxX (map Point.x (Stroke.points stroke)) \<and>
           is_greatest maxY (map Point.y (Stroke.points stroke)) \<and>
           width e = num_minus maxX (x e) \<and>
           height e = num_minus maxY (y e) \<and>
           points e = map (\<lambda>pt. [num_minus (Point.x pt) (x e), num_minus (Point.y pt) (y e)])
                        (Stroke.points stroke) \<and>
           is_least (Num 0) (map (\<lambda>q. q ! 0) (points e)) \<and>
           is_least (Num 0) (map (\<lambda>q. q ! 1) (points e))"
proof -
  let ?ps = "Stroke.points stroke"
  from convertStroke_element [OF assms(1,2), of conv sv layer k]
  obtain e k' where c: "convertStroke maxArgs conv sv stroke layer k = Returns (Some e, k')"
    and ex: "x e = Math_min (map Point.x ?ps)" and ey: "y e = Math_min (map Point.y ?ps)"
    and ew: "width e = num_minus (Math_max (map Point.x ?ps)) (Math_min (map Point.x ?ps))"
    and eh: "height e = num_minus (Math_max (map Point.y ?ps)) (Math_min (map Point.y ?ps))"
    and ep: "points e = map (\<lambda>pt. [num_minus (Point.x pt) (Math_min (map Point.x ?ps)),
                                     num_minus (Point.y pt) (Math_min (map Point.y ?ps))]) ?ps"
    by blast
  have ne: "map Point.x ?ps \<noteq> []" "map Point.y ?ps \<noteq> []" using assms(1) by simp_all
  have fx: "\<forall>v \<in> set (map Point.x ?ps). finite_number v"
    and fy: "\<forall>v \<in> set (map Point.y ?ps). finite_number v"
    using assms(3) by simp_all
  have gx: "\<forall>p \<in> set ?ps. finite_number (Point.x p)"
    and gy: "\<forall>p \<in> set ?ps. finite_number (Point.y p)"
    using assms(3) by simp_all
  have lx: "is_least (x e) (map Point.x ?ps)" unfolding ex by (rule Math_min_least [OF ne(1) fx])
  have ly: "is_least (y e) (map Point.y ?ps)" unfolding ey by (rule Math_min_least [OF ne(2) fy])
  have hx: "is_greatest (Math_max (map Point.x ?ps)) (map Point.x ?ps)"
    by (rule Math_max_greatest [OF ne(1) fx])
  have hy: "is_greatest (Math_max (map Point.y ?ps)) (map Point.y ?ps)"
    by (rule Math_max_greatest [OF ne(2) fy])
  have w: "width e = num_minus (Math_max (map Point.x ?ps)) (x e)" using ew ex by simp
  have h: "height e = num_minus (Math_max (map Point.y ?ps)) (y e)" using eh ey by simp
  have ep': "points e = map (\<lambda>pt. [num_minus (Point.x pt) (x e), num_minus (Point.y pt) (y e)]) ?ps"
    using ep ex ey by simp
  have m0: "is_least (Num 0) (map (\<lambda>q. q ! 0) (points e))"
    using least_shift [OF gx lx] by (simp add: ep' o_def)
  have m1: "is_least (Num 0) (map (\<lambda>q. q ! 1) (points e))"
    using least_shift [OF gy ly] by (simp add: ep' o_def)
  from c lx ly hx hy w h ep' m0 m1 show ?thesis by blast
qed

theorem bounding_box_translation_witness:
  "map_option x (returned_element (convertStroke 100000 example_converter example_services
      (example_stroke FINELINER) 0 example_calls)) = Some (Num 1) \<and>
   map_option y (returned_element (convertStroke 100000 example_converter example_services
      (example_stroke FINELINER) 0 example_calls)) = Some (Num 2) \<and>
   map_option width (returned_element (convertStroke 100000 example_converter example_services
      (example_stroke FINELINER) 0 example_calls)) = Some (Num 3) \<and>
   map_option height (returned_element (convertStroke 100000 example_converter example_services
      (example_stroke FINELINER) 0 example_calls)) = Some (Num 7) \<and>
   map_option points (returned_element (convertStroke 100000 example_converter example_services
      (example_stroke FINELINER) 0 example_calls))
     = Some [[Num 2, Num 3], [Num 0, Num 7], [Num 3, Num 0]]"
proof -
  have ne: "Stroke.points (example_stroke FINELINER) \<noteq> []" by (simp add: example_stroke_def)
  have le: "length (Stroke.points (example_stroke FINELINER)) \<le> 100000"
    by (simp add: example_stroke_def)
  have fin: "\<forall>p \<in> set (Stroke.points (example_stroke FINELINER)).
               finite_number (Point.x p) \<and> finite_number (Point.y p)"
    by (simp add: example_stroke_def example_point_def)
  from bounding_box_translation [OF ne le fin, of example_converter example_services 0 example_calls]
  obtain e k' maxX maxY where
    c: "convertStroke 100000 example_converter example_services (example_stroke FINELINER) 0
          example_calls = Returns (Some e, k')"
    and lx: "is_least (x e) [Num 3, Num 1, Num 4]" and ly: "is_least (y e) [Num 5, Num 9, Num 2]"
    and hx: "is_greatest maxX [Num 3, Num 1, Num 4]" and hy: "is_greatest maxY [Num 5, Num 9, Num 2]"
    and w: "width e = num_minus maxX (x e)" and h: "height e = num_minus maxY (y e)"
    and p: "points e = [[num_minus (Num 3) (x e), num_minus (Num 5) (y e)],
                        [num_minus (Num 1) (x e), num_minus (Num 9) (y e)],
                        [num_minus (Num 4) (x e), num_minus (Num 2) (y e)]]"
    by (auto simp: example_stroke_def example_point_def)
  from lx have x: "x e = Num 1" by (auto simp: is_least_def num_le_Num)
  from ly have y: "y e = Num 2" by (auto simp: is_least_def num_le_Num)
  from hx have mx: "maxX = Num 4" by (auto simp: is_greatest_def num_le_Num)
  from hy have my: "maxY = Num 9" by (auto simp: is_greatest_def num_le_Num)
  from x y w h p mx my show ?thesis unfolding c returned_element_def by simp
qed

text \<open>
  The claim as the specification words it, for every converted stroke with a point, fails
  on a coordinate that is not finite.  The revision-6 file of the example decodes to one
  stroke of one point whose x is \<^verbatim>\<open>+Infinity\<close>.  The least x is \<^verbatim>\<open>+Infinity\<close>, the
  relative x is \<^verbatim>\<open>Infinity - Infinity\<close>, which is \<^verbatim>\<open>NaN\<close> and not 0, and so is the width
  of the element.
\<close>

theorem bounding_box_translation_counterexample:
  "parse (example_header_v6 @ example_line_block_far)
     = Some (Success \<lparr>ParsedDocument.version = V6, layers = [[example_stroke_far]]\<rparr>) \<and>
   map Point.x (Stroke.points example_stroke_far) = [PosInfinity] \<and>
   map_option x (returned_element (convertStroke 100000 example_converter example_services
      example_stroke_far 0 example_calls)) = Some PosInfinity \<and>
   map_option width (returned_element (convertStroke 100000 example_converter example_services
      example_stroke_far 0 example_calls)) = Some NaN \<and>
   map_option points (returned_element (convertStroke 100000 example_converter example_services
      example_stroke_far 0 example_calls)) = Some [[NaN, Num 0]] \<and>
   Math_min [NaN] = NaN \<and>
   is_least (Num 0) [NaN] = False"
proof -
  have f: "parse (example_header_v6 @ example_line_block_far)
     = Some (Success \<lparr>ParsedDocument.version = V6, layers = [[example_stroke_far]]\<rparr>)"
    by code_simp
  have p: "map Point.x (Stroke.points example_stroke_far) = [PosInfinity]"
    by (simp add: example_stroke_far_def)
  have c: "map_option x (returned_element (convertStroke 100000 example_converter
              example_services example_stroke_far 0 example_calls)) = Some PosInfinity"
    "map_option width (returned_element (convertStroke 100000 example_converter
              example_services example_stroke_far 0 example_calls)) = Some NaN"
    "map_option points (returned_element (convertStroke 100000 example_converter
              example_services example_stroke_far 0 example_calls)) = Some [[NaN, Num 0]]"
    by (simp_all add: returned_element_def convertStroke_def spread_call_def
        example_stroke_far_def Let_def Date_now_def generateId_def
        generateSeed_def Math_min_def Math_max_def lower_def higher_def)
  have m: "Math_min [NaN] = NaN" by (simp add: Math_min_def lower_def)
  have l: "is_least (Num 0) [NaN] = False" by (simp add: is_least_def)
  from f p c m l show ?thesis by (intro conjI)
qed
section \<open>Which strokes become elements\<close>










section \<open>Determinism of the conversion\<close>

text \<open>
  Two runs of a step go the same way when both throw, or both return with the same
  elements up to the time fields and with the generators still in step.
\<close>

lemma convertStroke_det:
  assumes "same_generators sv1 k1 sv2 k2" and "options c1 = options c2"
    and "preserveLayers (options c1) \<Longrightarrow> layerGroupIds c1 layer = layerGroupIds c2 layer"
  shows "rel_completion
           (\<lambda>r1 r2. map_option (\<lambda>f. erase_time_element (Freedraw f)) (fst r1)
                       = map_option (\<lambda>f. erase_time_element (Freedraw f)) (fst r2) \<and>
                     same_generators sv1 (snd r1) sv2 (snd r2))
           (convertStroke maxArgs c1 sv1 s layer k1) (convertStroke maxArgs c2 sv2 s layer k2)"
  using assms
  by (simp add: convertStroke_def spread_call_def Let_def Date_now_def generateId_def
      generateSeed_def same_generators_def erase_time_element_def)

lemma convertLayer_det:
  assumes "options c1 = options c2"
    and "preserveLayers (options c1) \<Longrightarrow> layerGroupIds c1 layer = layerGroupIds c2 layer"
  shows "same_generators sv1 k1 sv2 k2 \<Longrightarrow> map erase_time_element els1 = map erase_time_element els2 \<Longrightarrow>
         rel_completion
           (\<lambda>r1 r2. map erase_time_element (fst r1) = map erase_time_element (fst r2) \<and>
                     same_generators sv1 (snd r1) sv2 (snd r2))
           (convertLayer maxArgs c1 sv1 layer ss (els1, k1))
           (convertLayer maxArgs c2 sv2 layer ss (els2, k2))"
proof (induction ss arbitrary: els1 els2 k1 k2)
  case Nil
  then show ?case by simp
next
  case (Cons s ss)
  show ?case
  proof (cases "\<not> includeEraser (options c1) \<and> isEraserStroke s")
    case True
    with assms(1) have "\<not> includeEraser (options c2) \<and> isEraserStroke s" by simp
    with True Cons.IH [OF Cons.prems] show ?thesis by simp
  next
    case False
    with assms(1) have F2: "\<not> (\<not> includeEraser (options c2) \<and> isEraserStroke s)" by simp
    note d = convertStroke_det [OF Cons.prems(1) assms(1) assms(2), of maxArgs s]
    show ?thesis
    proof (cases "convertStroke maxArgs c1 sv1 s layer k1")
      case Throws
      with d have "convertStroke maxArgs c2 sv2 s layer k2 = Throws"
        by (cases "convertStroke maxArgs c2 sv2 s layer k2") simp_all
      with Throws show ?thesis by (simp add: False F2)
    next
      case (Returns p1)
      with d obtain p2 where b: "convertStroke maxArgs c2 sv2 s layer k2 = Returns p2"
        by (cases "convertStroke maxArgs c2 sv2 s layer k2") simp_all
      obtain r1 k1' where p1: "p1 = (r1, k1')" by (cases p1)
      obtain r2 k2' where p2: "p2 = (r2, k2')" by (cases p2)
      from d Returns b p1 p2
      have e: "map_option (\<lambda>f. erase_time_element (Freedraw f)) r1
                 = map_option (\<lambda>f. erase_time_element (Freedraw f)) r2"
        and g: "same_generators sv1 k1' sv2 k2'" by simp_all
      show ?thesis
      proof (cases r1)
        case None
        with e have "r2 = None" by simp
        with None Returns b p1 p2 Cons.IH [OF g Cons.prems(2)] show ?thesis by (simp add: False F2)
      next
        case (Some f1)
        with e obtain f2 where r2: "r2 = Some f2"
          and ef: "erase_time_element (Freedraw f1) = erase_time_element (Freedraw f2)"
          by (cases r2) auto
        have "map erase_time_element (els1 @ [Freedraw f1]) = map erase_time_element (els2 @ [Freedraw f2])"
          using Cons.prems(2) ef by simp
        from Cons.IH [OF g this] Some r2 Returns b p1 p2 show ?thesis by (simp add: False F2)
      qed
    qed
  qed
qed

lemma convertLayers_det:
  assumes "options c1 = options c2"
  shows "(preserveLayers (options c1) \<Longrightarrow> \<forall>i. layer \<le> i \<and> i < layer + length ls \<longrightarrow> layerGroupIds c1 i = layerGroupIds c2 i) \<Longrightarrow>
         same_generators sv1 k1 sv2 k2 \<Longrightarrow> map erase_time_element els1 = map erase_time_element els2 \<Longrightarrow>
         rel_completion
           (\<lambda>r1 r2. map erase_time_element (fst r1) = map erase_time_element (fst r2))
           (convertLayers maxArgs c1 sv1 layer ls (els1, k1))
           (convertLayers maxArgs c2 sv2 layer ls (els2, k2))"
proof (induction ls arbitrary: layer els1 els2 k1 k2)
  case Nil
  then show ?case by simp
next
  case (Cons l ls)
  have here: "preserveLayers (options c1) \<Longrightarrow> layerGroupIds c1 layer = layerGroupIds c2 layer"
    using Cons.prems(1) by simp
  note d = convertLayer_det [OF assms here Cons.prems(2) Cons.prems(3), of maxArgs l]
  have later: "preserveLayers (options c1) \<Longrightarrow>
          \<forall>i. layer + 1 \<le> i \<and> i < layer + 1 + length ls \<longrightarrow> layerGroupIds c1 i = layerGroupIds c2 i"
    using Cons.prems(1) by simp
  show ?case
  proof (cases "convertLayer maxArgs c1 sv1 layer l (els1, k1)")
    case Throws
    with d have "convertLayer maxArgs c2 sv2 layer l (els2, k2) = Throws"
      by (cases "convertLayer maxArgs c2 sv2 layer l (els2, k2)") simp_all
    with Throws show ?thesis by simp
  next
    case (Returns p1)
    with d obtain p2 where b: "convertLayer maxArgs c2 sv2 layer l (els2, k2) = Returns p2"
      by (cases "convertLayer maxArgs c2 sv2 layer l (els2, k2)") simp_all
    obtain e1 j1 where p1: "p1 = (e1, j1)" by (cases p1)
    obtain e2 j2 where p2: "p2 = (e2, j2)" by (cases p2)
    from d Returns b p1 p2
    have e: "map erase_time_element e1 = map erase_time_element e2"
      and g: "same_generators sv1 j1 sv2 j2" by simp_all
    from Cons.IH [OF later g e] Returns b p1 p2 show ?thesis by simp
  qed
qed

lemma setLayerGroupIds_below:
  "i < index \<Longrightarrow> fst (setLayerGroupIds sv index ls (m, k)) i = m i"
  by (induction ls arbitrary: index m k) (simp_all add: generateId_def)

lemma setLayerGroupIds_det:
  "same_generators sv1 k1 sv2 k2 \<Longrightarrow>
   (\<forall>i. index \<le> i \<and> i < index + length ls \<longrightarrow>
        fst (setLayerGroupIds sv1 index ls (m1, k1)) i = fst (setLayerGroupIds sv2 index ls (m2, k2)) i) \<and>
   same_generators sv1 (snd (setLayerGroupIds sv1 index ls (m1, k1)))
                   sv2 (snd (setLayerGroupIds sv2 index ls (m2, k2)))"
proof (induction ls arbitrary: index m1 m2 k1 k2)
  case Nil
  then show ?case by auto
next
  case (Cons l ls)
  let ?k1 = "k1\<lparr>idCalls := idCalls k1 + 1\<rparr>" and ?k2 = "k2\<lparr>idCalls := idCalls k2 + 1\<rparr>"
  let ?g = "nextId sv1 (idCalls k1)"
  have g2: "nextId sv2 (idCalls k2) = ?g" using Cons.prems by (simp add: same_generators_def)
  have sg: "same_generators sv1 ?k1 sv2 ?k2" using Cons.prems by (simp add: same_generators_def)
  have u1: "setLayerGroupIds sv1 index (l # ls) (m1, k1) = setLayerGroupIds sv1 (index + 1) ls (m1(index \<mapsto> ?g), ?k1)"
    by (simp add: generateId_def)
  have u2: "setLayerGroupIds sv2 index (l # ls) (m2, k2) = setLayerGroupIds sv2 (index + 1) ls (m2(index \<mapsto> ?g), ?k2)"
    by (simp add: generateId_def g2)
  note IH = Cons.IH [OF sg, of "index + 1" "m1(index \<mapsto> ?g)" "m2(index \<mapsto> ?g)"]
  note ih = IH [THEN conjunct1] and ihg = IH [THEN conjunct2]
  have at: "fst (setLayerGroupIds sv1 (index + 1) ls (m1(index \<mapsto> ?g), ?k1)) index
              = fst (setLayerGroupIds sv2 (index + 1) ls (m2(index \<mapsto> ?g), ?k2)) index"
    by (simp add: setLayerGroupIds_below)
  show ?case
    unfolding u1 u2
  proof (intro conjI allI impI)
    fix i assume "index \<le> i \<and> i < index + length (l # ls)"
    then consider "i = index" | "index + 1 \<le> i \<and> i < index + 1 + length ls" by fastforce
    then show "fst (setLayerGroupIds sv1 (index + 1) ls (m1(index \<mapsto> ?g), ?k1)) i
                 = fst (setLayerGroupIds sv2 (index + 1) ls (m2(index \<mapsto> ?g), ?k2)) i"
    proof cases
      case 1
      then show ?thesis using at by (simp only:)
    next
      case 2
      then show ?thesis using ih by blast
    qed
  next
    show "same_generators sv1 (snd (setLayerGroupIds sv1 (index + 1) ls (m1(index \<mapsto> ?g), ?k1)))
                          sv2 (snd (setLayerGroupIds sv2 (index + 1) ls (m2(index \<mapsto> ?g), ?k2)))"
      by (rule ihg)
  qed
qed

text \<open>
  Claim C10.  Two conversions of the same document with the same options and the same
  background image, drawing from the same id and seed generators, give the same output
  up to the time-based fields, whatever the clock says and whatever group ids an earlier
  conversion left in the converter.  The two runs are on the same engine; they throw
  together or return together.
\<close>

theorem convert_deterministic:
  assumes "same_generators sv1 k1 sv2 k2"
    and "options c1 = options c2" and "backgroundImage c1 = backgroundImage c2"
  shows "erase_time_result (convert maxArgs c1 sv1 document k1)
           = erase_time_result (convert maxArgs c2 sv2 document k2)"
proof -
  define B1 where "B1 =
    (case backgroundImage c1 of
        Some bg \<Rightarrow>
          (case generateId sv1 k1 of (fid, k) \<Rightarrow>
           case createBackgroundImageElement sv1 fid (bg_width bg) (bg_height bg) k of
             (imageElement, k) \<Rightarrow>
           case Date_now sv1 k of (t, k) \<Rightarrow>
             ([Image imageElement],
              [(fid, \<lparr>mimeType = ''image/png'', file_id = fid, dataURL = dataUrl bg,
                      created = t\<rparr>)], k))
      | None \<Rightarrow> ([], [], k1))"
  define B2 where "B2 =
    (case backgroundImage c2 of
        Some bg \<Rightarrow>
          (case generateId sv2 k2 of (fid, k) \<Rightarrow>
           case createBackgroundImageElement sv2 fid (bg_width bg) (bg_height bg) k of
             (imageElement, k) \<Rightarrow>
           case Date_now sv2 k of (t, k) \<Rightarrow>
             ([Image imageElement],
              [(fid, \<lparr>mimeType = ''image/png'', file_id = fid, dataURL = dataUrl bg,
                      created = t\<rparr>)], k))
      | None \<Rightarrow> ([], [], k2))"
  obtain img1 fls1 j1 where b1: "B1 = (img1, fls1, j1)" by (cases B1)
  obtain img2 fls2 j2 where b2: "B2 = (img2, fls2, j2)" by (cases B2)
  have bg: "map erase_time_element img1 = map erase_time_element img2 \<and>
            map (\<lambda>(fid, f). (fid, f\<lparr>created := 0\<rparr>)) fls1 = map (\<lambda>(fid, f). (fid, f\<lparr>created := 0\<rparr>)) fls2 \<and>
            same_generators sv1 j1 sv2 j2"
  proof (cases "backgroundImage c1")
    case None
    with assms b1 b2 show ?thesis unfolding B1_def B2_def by simp
  next
    case (Some b)
    with assms(3) have s2: "backgroundImage c2 = Some b" by simp
    from b1 b2 assms(1) show ?thesis
      unfolding B1_def B2_def Some s2
      by (auto simp: createBackgroundImageElement_def Date_now_def generateId_def generateSeed_def
          same_generators_def erase_time_element_def)
  qed
  define G1 where "G1 =
    (if preserveLayers (options c1)
      then setLayerGroupIds sv1 0 (layers document) (layerGroupIds c1, j1)
      else (layerGroupIds c1, j1))"
  define G2 where "G2 =
    (if preserveLayers (options c2)
      then setLayerGroupIds sv2 0 (layers document) (layerGroupIds c2, j2)
      else (layerGroupIds c2, j2))"
  obtain m1 n1 where g1: "G1 = (m1, n1)" by (cases G1)
  obtain m2 n2 where g2: "G2 = (m2, n2)" by (cases G2)
  have sg: "same_generators sv1 n1 sv2 n2"
    and ag: "preserveLayers (options c1) \<Longrightarrow>
               \<forall>i. 0 \<le> i \<and> i < 0 + length (layers document) \<longrightarrow> m1 i = m2 i"
  proof -
    from bg have j: "same_generators sv1 j1 sv2 j2" by simp
    show "same_generators sv1 n1 sv2 n2"
    proof (cases "preserveLayers (options c1)")
      case True
      with g1 g2 assms(2) setLayerGroupIds_det [OF j, of 0 "layers document" "layerGroupIds c1" "layerGroupIds c2"]
      show ?thesis unfolding G1_def G2_def by simp
    next
      case False
      with g1 g2 assms(2) j show ?thesis unfolding G1_def G2_def by simp
    qed
    assume True: "preserveLayers (options c1)"
    with g1 g2 assms(2) setLayerGroupIds_det [OF j, of 0 "layers document" "layerGroupIds c1" "layerGroupIds c2"]
    show "\<forall>i. 0 \<le> i \<and> i < 0 + length (layers document) \<longrightarrow> m1 i = m2 i"
      unfolding G1_def G2_def by simp
  qed
  let ?c1 = "c1\<lparr>layerGroupIds := m1\<rparr>" and ?c2 = "c2\<lparr>layerGroupIds := m2\<rparr>"
  have o: "options ?c1 = options ?c2" using assms(2) by simp
  have ag': "preserveLayers (options ?c1) \<Longrightarrow>
               \<forall>i. 0 \<le> i \<and> i < 0 + length (layers document) \<longrightarrow> layerGroupIds ?c1 i = layerGroupIds ?c2 i"
    using ag by simp
  from bg have ei: "map erase_time_element img1 = map erase_time_element img2" by simp
  let ?r1 = "convertLayers maxArgs ?c1 sv1 0 (layers document) (img1, n1)"
    and ?r2 = "convertLayers maxArgs ?c2 sv2 0 (layers document) (img2, n2)"
  from convertLayers_det [OF o ag' sg ei]
  have els: "rel_completion
               (\<lambda>r1 r2. map erase_time_element (fst r1) = map erase_time_element (fst r2)) ?r1 ?r2" .
  have d1: "erase_time_result (convert maxArgs c1 sv1 document k1) =
              (case ?r1 of
                 Throws \<Rightarrow> Throws
               | Returns r \<Rightarrow>
                   Returns
                     \<lparr>doc_type = ''excalidraw'', doc_version = 2,
                      source = ''obsidian-remarkable-import'',
                      elements = map erase_time_element (fst r),
                      appState = \<lparr>viewBackgroundColor = ''#ffffff'', currentItemFontFamily = 1\<rparr>,
                      files = map (\<lambda>(fid, f). (fid, f\<lparr>created := 0\<rparr>)) fls1\<rparr>)"
    unfolding convert_def B1_def [symmetric] b1 prod.case G1_def [symmetric] g1
    by (cases ?r1) (simp_all add: Let_def split_beta erase_time_def erase_time_result_def)
  have d2: "erase_time_result (convert maxArgs c2 sv2 document k2) =
              (case ?r2 of
                 Throws \<Rightarrow> Throws
               | Returns r \<Rightarrow>
                   Returns
                     \<lparr>doc_type = ''excalidraw'', doc_version = 2,
                      source = ''obsidian-remarkable-import'',
                      elements = map erase_time_element (fst r),
                      appState = \<lparr>viewBackgroundColor = ''#ffffff'', currentItemFontFamily = 1\<rparr>,
                      files = map (\<lambda>(fid, f). (fid, f\<lparr>created := 0\<rparr>)) fls2\<rparr>)"
    unfolding convert_def B2_def [symmetric] b2 prod.case G2_def [symmetric] g2
    by (cases ?r2) (simp_all add: Let_def split_beta erase_time_def erase_time_result_def)
  show ?thesis unfolding d1 d2 using els bg by (cases ?r1; cases ?r2) simp_all
qed

theorem convert_deterministic_witness:
  "erase_time_result (convert 1000 example_converter example_services
                        (example_document FINELINER MARKER) example_calls)
     = erase_time_result (convert 1000 (example_converter\<lparr>layerGroupIds := (\<lambda>_. Some ''stale'')\<rparr>)
                            (example_services\<lparr>nextNow := (\<lambda>_. 5)\<rparr>)
                            (example_document FINELINER MARKER)
                            (example_calls\<lparr>nowCalls := 42\<rparr>)) \<and>
   map_completion fst (convert 1000 example_converter example_services
          (example_document FINELINER MARKER) example_calls)
     \<noteq> map_completion fst (convert 1000 (example_converter\<lparr>layerGroupIds := (\<lambda>_. Some ''stale'')\<rparr>)
              (example_services\<lparr>nextNow := (\<lambda>_. 5)\<rparr>)
              (example_document FINELINER MARKER)
              (example_calls\<lparr>nowCalls := 42\<rparr>)) \<and>
   erase_time_result (convert 1000 example_converter example_services
                        (example_document FINELINER MARKER) example_calls) \<noteq> Throws \<and>
   erase_time_result (convert 2 example_converter example_services
                        (example_document FINELINER MARKER) example_calls)
     = erase_time_result (convert 2 (example_converter\<lparr>layerGroupIds := (\<lambda>_. Some ''stale'')\<rparr>)
                            (example_services\<lparr>nextNow := (\<lambda>_. 5)\<rparr>)
                            (example_document FINELINER MARKER)
                            (example_calls\<lparr>nowCalls := 42\<rparr>))"
proof (intro conjI)
  show "erase_time_result (convert 1000 example_converter example_services
                        (example_document FINELINER MARKER) example_calls)
     = erase_time_result (convert 1000 (example_converter\<lparr>layerGroupIds := (\<lambda>_. Some ''stale'')\<rparr>)
                            (example_services\<lparr>nextNow := (\<lambda>_. 5)\<rparr>)
                            (example_document FINELINER MARKER)
                            (example_calls\<lparr>nowCalls := 42\<rparr>))"
    by (rule convert_deterministic)
       (simp_all add: same_generators_def example_services_def example_calls_def)
  show "erase_time_result (convert 2 example_converter example_services
                        (example_document FINELINER MARKER) example_calls)
     = erase_time_result (convert 2 (example_converter\<lparr>layerGroupIds := (\<lambda>_. Some ''stale'')\<rparr>)
                            (example_services\<lparr>nextNow := (\<lambda>_. 5)\<rparr>)
                            (example_document FINELINER MARKER)
                            (example_calls\<lparr>nowCalls := 42\<rparr>))"
    by (rule convert_deterministic)
       (simp_all add: same_generators_def example_services_def example_calls_def)
  show "map_completion fst (convert 1000 example_converter example_services
          (example_document FINELINER MARKER) example_calls)
     \<noteq> map_completion fst (convert 1000 (example_converter\<lparr>layerGroupIds := (\<lambda>_. Some ''stale'')\<rparr>)
              (example_services\<lparr>nextNow := (\<lambda>_. 5)\<rparr>)
              (example_document FINELINER MARKER)
              (example_calls\<lparr>nowCalls := 42\<rparr>))"
    by code_simp
  show "erase_time_result (convert 1000 example_converter example_services
                        (example_document FINELINER MARKER) example_calls) \<noteq> Throws"
    by code_simp
qed
end
